theory Spec2Isabelle
  imports Complex_Main
begin

section \<open>Tensors, errors and the random index stream\<close>

text \<open>
  The development embeds the patch-scoring code of \<^verbatim>\<open>scripts/AudioCLIP/frames.py\<close>.
  The entries of the feature tensors are modelled as real numbers, and sums and products of
  them are read exactly. Where the code can produce NaN or an infinity (a mean over no
  entries, a division by zero) the result is written out, and where rounding decides the
  result (in \<^verbatim>\<open>MAP\<close>) it is left to a parameter. A one-dimensional tensor is a list of
  reals, a two-dimensional tensor the list of its rows. Shapes are assumed to conform
  wherever the source multiplies two tensors.
\<close>

type_synonym vec = "real list"
type_synonym tensor2 = "real list list"

datatype error =
  ZeroDivisionError | ValueError | RuntimeError | IndexError | FileNotFoundError | Aborting

text \<open>The product \<^verbatim>\<open>u @ v.T\<close> of two rows.\<close>

definition dot :: "vec \<Rightarrow> vec \<Rightarrow> real" where
  "dot u v = sum_list (map2 (*) u v)"

text \<open>\<^verbatim>\<open>X @ Y.T\<close>: entry \<open>(i, j)\<close> is the product of row \<open>i\<close> of \<open>X\<close> with row \<open>j\<close> of \<open>Y\<close>.\<close>

definition matmul_T :: "tensor2 \<Rightarrow> tensor2 \<Rightarrow> tensor2" where
  "matmul_T X Y = map (\<lambda>r. map (dot r) Y) X"

text \<open>
  \<^verbatim>\<open>np.random.randint(n)\<close> draws an index in \<open>[0, n)\<close> and raises \<^verbatim>\<open>ValueError\<close> for
  \<open>n \<le> 0\<close>. The generator is a stream \<open>rng\<close> of raw naturals read at a position \<open>p\<close>;
  every sequence of indices below \<open>n\<close> is the outcome of some stream.
\<close>

definition randint :: "(nat \<Rightarrow> nat) \<Rightarrow> nat \<Rightarrow> nat \<Rightarrow> error + nat" where
  "randint rng p n = (if n = 0 then Inl ValueError else Inr (rng p mod n))"

section \<open>Negative sampling\<close>

text \<open>
  The \<^verbatim>\<open>while True\<close> loop of \<^verbatim>\<open>negative_sample\<close>: draw an index, reject the patch when its
  product with the source feature reaches the threshold, otherwise return it together with
  the next position of the stream. \<open>None\<close> is the loop that never leaves.
\<close>

partial_function (option) rejection_loop ::
  "vec \<Rightarrow> tensor2 \<Rightarrow> real \<Rightarrow> (nat \<Rightarrow> nat) \<Rightarrow> nat \<Rightarrow> (error + vec \<times> nat) option" where
  "rejection_loop source_feature embedding threshold rng p =
     (case randint rng p (length embedding) of
        Inl e \<Rightarrow> Some (Inl e)
      | Inr idx \<Rightarrow>
          (let negative = embedding ! idx in
           if dot negative source_feature \<ge> threshold
           then rejection_loop source_feature embedding threshold rng (Suc p)
           else Some (Inr (negative, Suc p))))"

declare rejection_loop.simps [code]

text \<open>The \<^verbatim>\<open>for _ in range(k)\<close> loop, appending one accepted patch per round.\<close>

fun sample_rounds ::
  "vec \<Rightarrow> tensor2 \<Rightarrow> real \<Rightarrow> (nat \<Rightarrow> nat) \<Rightarrow> nat \<Rightarrow> nat \<Rightarrow> (error + tensor2 \<times> nat) option" where
  "sample_rounds source_feature embedding threshold rng 0 p = Some (Inr ([], p))"
| "sample_rounds source_feature embedding threshold rng (Suc k) p =
     (case rejection_loop source_feature embedding threshold rng p of
        None \<Rightarrow> None
      | Some (Inl e) \<Rightarrow> Some (Inl e)
      | Some (Inr (negative, p')) \<Rightarrow>
          (case sample_rounds source_feature embedding threshold rng k p' of
             None \<Rightarrow> None
           | Some (Inl e) \<Rightarrow> Some (Inl e)
           | Some (Inr (negatives, p'')) \<Rightarrow> Some (Inr (negative # negatives, p''))))"

text \<open>\<^verbatim>\<open>torch.stack\<close> of a list of tensors raises \<^verbatim>\<open>RuntimeError\<close> on the empty list.\<close>

definition stack :: "'a list \<Rightarrow> error + 'a list" where
  "stack ts = (if ts = [] then Inl RuntimeError else Inr ts)"

definition negative_sample ::
  "vec \<Rightarrow> tensor2 \<Rightarrow> nat \<Rightarrow> real \<Rightarrow> (nat \<Rightarrow> nat) \<Rightarrow> nat \<Rightarrow> (error + tensor2 \<times> nat) option" where
  "negative_sample source_feature embedding k threshold rng p =
     (case sample_rounds source_feature embedding threshold rng k p of
        None \<Rightarrow> None
      | Some (Inl e) \<Rightarrow> Some (Inl e)
      | Some (Inr (negatives, p')) \<Rightarrow>
          (case stack negatives of Inl e \<Rightarrow> Some (Inl e) | Inr t \<Rightarrow> Some (Inr (t, p'))))"

text \<open>
  A draw at position \<open>q\<close> is accepted when the drawn patch stays strictly below the
  threshold.
\<close>

definition accepted :: "vec \<Rightarrow> tensor2 \<Rightarrow> real \<Rightarrow> (nat \<Rightarrow> nat) \<Rightarrow> nat \<Rightarrow> bool" where
  "accepted source_feature embedding threshold rng q =
     (dot (embedding ! (rng q mod length embedding)) source_feature < threshold)"

section \<open>Tensor operations used by the scoring\<close>

definition SCALE_AUDIO_IMAGE :: real where
  "SCALE_AUDIO_IMAGE = 68.1320"

definition SCALE_IMAGE_TEXT :: real where
  "SCALE_IMAGE_TEXT = 81.9903"

text \<open>
  The tensors computed from the features may hold NaN: an entry is a \<open>real option\<close> with
  \<open>None\<close> for NaN, and every operation returns NaN as soon as one operand is NaN.
\<close>

type_synonym nan_tensor2 = "real option list list"

definition finite_tensor :: "tensor2 \<Rightarrow> nan_tensor2" where
  "finite_tensor T = map (map Some) T"

definition nan_lift :: "(real \<Rightarrow> real \<Rightarrow> real) \<Rightarrow> real option \<Rightarrow> real option \<Rightarrow> real option" where
  "nan_lift f a b =
     (case a of None \<Rightarrow> None | Some x \<Rightarrow> (case b of None \<Rightarrow> None | Some y \<Rightarrow> Some (f x y)))"

text \<open>Scalar times tensor, and the entrywise operations on tensors of equal shape.\<close>

definition smul :: "real \<Rightarrow> tensor2 \<Rightarrow> tensor2" where
  "smul c T = map (map ((*) c)) T"

definition nan_smul :: "real \<Rightarrow> nan_tensor2 \<Rightarrow> nan_tensor2" where
  "nan_smul c T = map (map (nan_lift (*) (Some c))) T"

definition nan_vsmul :: "real \<Rightarrow> real option list \<Rightarrow> real option list" where
  "nan_vsmul c v = map (nan_lift (*) (Some c)) v"

definition tadd :: "nan_tensor2 \<Rightarrow> nan_tensor2 \<Rightarrow> nan_tensor2" where
  "tadd A B = map2 (map2 (nan_lift (+))) A B"

definition tsub :: "nan_tensor2 \<Rightarrow> nan_tensor2 \<Rightarrow> nan_tensor2" where
  "tsub A B = map2 (map2 (nan_lift (-))) A B"

definition tdiv :: "nan_tensor2 \<Rightarrow> real \<Rightarrow> nan_tensor2" where
  "tdiv A c = map (map (\<lambda>x. nan_lift (/) x (Some c))) A"

text \<open>\<^verbatim>\<open>torch.mean\<close> over a list of entries; over no entries it is NaN.\<close>

definition mean :: "real list \<Rightarrow> real option" where
  "mean xs = (if xs = [] then None else Some (sum_list xs / real (length xs)))"

text \<open>\<^verbatim>\<open>torch.mean(T, dim=-1)\<close>, with and without \<^verbatim>\<open>keepdim=True\<close>, and \<^verbatim>\<open>unsqueeze(-1)\<close>.\<close>

definition mean_lastdim :: "tensor2 \<Rightarrow> real option list" where
  "mean_lastdim T = map mean T"

definition mean_lastdim_keepdim :: "tensor2 \<Rightarrow> nan_tensor2" where
  "mean_lastdim_keepdim T = map (\<lambda>r. [mean r]) T"

definition unsqueeze :: "'a list \<Rightarrow> 'a list list" where
  "unsqueeze v = map (\<lambda>x. [x]) v"

text \<open>
  \<^verbatim>\<open>torch.quantile(input, q)\<close> on the flattened input, with linear interpolation between
  the two order statistics around rank \<open>q * (n - 1)\<close>. It raises on an empty input and
  on \<open>q\<close> outside \<open>[0, 1]\<close>.
\<close>

definition quantile :: "real list \<Rightarrow> real \<Rightarrow> error + real" where
  "quantile xs q =
     (if xs = [] \<or> q < 0 \<or> 1 < q then Inl RuntimeError
      else
        let sorted_xs = sort xs;
            rank = q * real (length xs - 1);
            below = nat \<lfloor>rank\<rfloor>;
            above = nat \<lceil>rank\<rceil>;
            weight = rank - real below
        in Inr (sorted_xs ! below + weight * (sorted_xs ! above - sorted_xs ! below)))"

section \<open>The contrast-stretching transform\<close>

text \<open>
  \<^verbatim>\<open>MAP\<close> computes in binary32. Two of its results depend on rounding, which is not
  modelled: the standard deviation of a tensor that is not all zero, and the value of
  \<^verbatim>\<open>100 / (1 + torch.exp(-(s - top25) / (std / 12)))\<close> for a non-zero deviation (it may
  round to exactly \<open>0\<close> or \<open>100\<close>, or be NaN after an underflow of \<open>std / 12\<close>). Both are
  parameters of the model, \<open>std32\<close> and \<open>sigmoid32\<close>; \<open>None\<close> is NaN. Everything else is
  exact in binary32 and written out.
\<close>

record float_ops =
  std32 :: "real list \<Rightarrow> real option"
  sigmoid32 :: "real \<Rightarrow> real \<Rightarrow> real \<Rightarrow> real option"

text \<open>
  \<^verbatim>\<open>similarity.std()\<close>, the unbiased standard deviation of all entries: NaN when an entry
  is NaN, NaN with fewer than two entries (zero divided by zero), exactly zero on a tensor of
  zeros (every intermediate result is zero), and the rounded value otherwise.
\<close>

definition tensor_std :: "float_ops \<Rightarrow> real option list \<Rightarrow> real option" where
  "tensor_std ops xs =
     (if None \<in> set xs then None
      else if length xs \<le> 1 then None
      else if xs = replicate (length xs) (Some 0) then Some 0
      else std32 ops (map the xs))"

text \<open>\<^verbatim>\<open>similarity[:, 0]\<close> raises \<^verbatim>\<open>IndexError\<close> on a tensor without columns.\<close>

definition column0 :: "'a list list \<Rightarrow> error + 'a list" where
  "column0 T = (if [] \<in> set T then Inl IndexError else Inr (map hd T))"

text \<open>
  \<^verbatim>\<open>torch.topk(v, k).values\<close>: the \<open>k\<close> largest entries in descending order, NaN counting
  as larger than every number; an error when \<open>k\<close> exceeds the length. \<^verbatim>\<open>.min()\<close> raises on
  an empty tensor and is NaN when an entry is.
\<close>

definition topk :: "real option list \<Rightarrow> nat \<Rightarrow> error + real option list" where
  "topk v k =
     (if length v < k then Inl RuntimeError
      else Inr (take k (filter (\<lambda>x. x = None) v
                        @ map Some (rev (sort (map the (filter (\<lambda>x. x \<noteq> None) v)))))))"

definition tensor_min :: "real option list \<Rightarrow> error + real option" where
  "tensor_min v =
     (if v = [] then Inl RuntimeError
      else Inr (if None \<in> set v then None else Some (min_list (map the v))))"

text \<open>
  One entry of \<^verbatim>\<open>100 / (1 + torch.exp(-(similarity - top25) / (std / 12)))\<close>. With a zero
  deviation \<open>std / 12\<close> is zero and the quotient is NaN for equal \<open>s\<close> and \<open>top25\<close> and an
  infinity otherwise, which \<^verbatim>\<open>exp\<close> and the outer division turn into exactly \<open>100\<close> or \<open>0\<close>.
\<close>

definition squash :: "float_ops \<Rightarrow> real option \<Rightarrow> real option \<Rightarrow> real option \<Rightarrow> real option" where
  "squash ops s top25 std =
     (case s of
        None \<Rightarrow> None
      | Some sv \<Rightarrow>
          (case top25 of
             None \<Rightarrow> None
           | Some t \<Rightarrow>
               (case std of
                  None \<Rightarrow> None
                | Some sd \<Rightarrow>
                    if sd = 0
                    then (if sv = t then None else if t < sv then Some 100 else Some 0)
                    else sigmoid32 ops sv t sd)))"

text \<open>
  \<^verbatim>\<open>int(len(similarity) * 0.05)\<close> is \<open>length similarity div 20\<close>: the double nearest to
  \<open>0.05\<close> lies above \<open>1/20\<close> by less than \<open>3 * 10\<^sup>-\<^sup>1\<^sup>8\<close>, so the product never rounds below
  a whole number it should reach nor up to the next one.
\<close>

definition MAP :: "float_ops \<Rightarrow> nan_tensor2 \<Rightarrow> error + nan_tensor2" where
  "MAP ops similarity =
     (let std = tensor_std ops (concat similarity) in
      case column0 similarity of
        Inl e \<Rightarrow> Inl e
      | Inr col \<Rightarrow>
          (case topk col (length similarity div 20) of
             Inl e \<Rightarrow> Inl e
           | Inr vals \<Rightarrow>
               (case tensor_min vals of
                  Inl e \<Rightarrow> Inl e
                | Inr top25 \<Rightarrow> Inr (map (map (\<lambda>s. squash ops s top25 std)) similarity))))"

section \<open>Scoring one frame\<close>

text \<open>
  The body of the loop of \<^verbatim>\<open>process_frames\<close> up to the call of \<^verbatim>\<open>MAP\<close>. The source
  feature is a tensor of one row. \<open>similarity_before_MAP\<close> is the tensor expression for
  given negatives, \<open>frame_negatives\<close> the sampling step with its threshold, and
  \<open>score_frame\<close> their composition, which also returns the position of the random stream
  after sampling.
\<close>

definition similarity_before_MAP ::
  "tensor2 \<Rightarrow> vec \<Rightarrow> tensor2 option \<Rightarrow> real \<Rightarrow> tensor2 \<Rightarrow> nan_tensor2" where
  "similarity_before_MAP embedding source_feature supervision_feature lambda negatives =
     (let unscaled_similarity = matmul_T embedding [source_feature];
          similarity = finite_tensor (smul SCALE_AUDIO_IMAGE unscaled_similarity);
          similarity =
            (case supervision_feature of
               None \<Rightarrow> similarity
             | Some supervision \<Rightarrow>
                 (let supervision_similarity =
                        mean_lastdim_keepdim (matmul_T (smul SCALE_IMAGE_TEXT embedding) supervision)
                  in tdiv (tadd similarity supervision_similarity) 2));
          penalty = nan_vsmul SCALE_AUDIO_IMAGE (mean_lastdim (matmul_T embedding negatives))
      in tsub similarity (nan_smul lambda (unsqueeze penalty)))"

definition frame_negatives ::
  "tensor2 \<Rightarrow> vec \<Rightarrow> (nat \<Rightarrow> nat) \<Rightarrow> nat \<Rightarrow> (error + tensor2 \<times> nat) option" where
  "frame_negatives embedding source_feature rng p =
     (let unscaled_similarity = matmul_T embedding [source_feature] in
      case quantile (concat unscaled_similarity) 0.7 of
        Inl e \<Rightarrow> Some (Inl e)
      | Inr threshold \<Rightarrow> negative_sample source_feature embedding 40 threshold rng p)"

definition score_frame ::
  "tensor2 \<Rightarrow> vec \<Rightarrow> tensor2 option \<Rightarrow> real \<Rightarrow> (nat \<Rightarrow> nat) \<Rightarrow> nat
     \<Rightarrow> (error + nan_tensor2 \<times> nat) option" where
  "score_frame embedding source_feature supervision_feature lambda rng p =
     (case frame_negatives embedding source_feature rng p of
        None \<Rightarrow> None
      | Some (Inl e) \<Rightarrow> Some (Inl e)
      | Some (Inr (negatives, p')) \<Rightarrow>
          Some (Inr (similarity_before_MAP embedding source_feature supervision_feature
                       lambda negatives, p')))"

text \<open>
  \<^verbatim>\<open>t.reshape(h, w)\<close> of a tensor with the entries \<open>xs\<close> in row-major order. One of the
  two sizes may be \<open>-1\<close> and is then inferred; any other mismatch raises.
\<close>

definition rows_of :: "nat \<Rightarrow> nat \<Rightarrow> 'a list \<Rightarrow> 'a list list" where
  "rows_of h w xs = map (\<lambda>i. take w (drop (i * w) xs)) [0..<h]"

definition reshape :: "'a list \<Rightarrow> int \<Rightarrow> int \<Rightarrow> error + 'a list list" where
  "reshape xs h w =
     (if h = -1 \<and> w = -1 then Inl RuntimeError
      else if h = -1 then
        (if 0 < w \<and> int (length xs) mod w = 0
         then Inr (rows_of (length xs div nat w) (nat w) xs) else Inl RuntimeError)
      else if w = -1 then
        (if 0 < h \<and> int (length xs) mod h = 0
         then Inr (rows_of (nat h) (length xs div nat h) xs) else Inl RuntimeError)
      else if h < 0 \<or> w < 0 then Inl RuntimeError
      else if h * w = int (length xs) then Inr (rows_of (nat h) (nat w) xs)
      else Inl RuntimeError)"





section \<open>Partitioning a frame into patches\<close>

text \<open>
  A PIL image is its size and its pixels; reading outside the image gives the fill
  value \<open>0\<close>, as \<^verbatim>\<open>crop\<close> and \<^verbatim>\<open>ImageOps.expand\<close> do.
\<close>

record 'a image =
  width :: nat
  height :: nat
  pixel :: "int \<Rightarrow> int \<Rightarrow> 'a"

definition getpixel :: "('a::zero) image \<Rightarrow> int \<Rightarrow> int \<Rightarrow> 'a" where
  "getpixel im x y =
     (if 0 \<le> x \<and> x < int (width im) \<and> 0 \<le> y \<and> y < int (height im) then pixel im x y else 0)"

text \<open>\<^verbatim>\<open>ImageOps.expand(image, (left, top, right, bottom))\<close> with the default fill.\<close>

definition expand :: "('a::zero) image \<Rightarrow> nat \<times> nat \<times> nat \<times> nat \<Rightarrow> 'a image" where
  "expand im border =
     (case border of (b_left, b_top, b_right, b_bottom) \<Rightarrow>
        \<lparr>width = b_left + width im + b_right,
         height = b_top + height im + b_bottom,
         pixel = (\<lambda>x y. getpixel im (x - int b_left) (y - int b_top))\<rparr>)"

text \<open>\<^verbatim>\<open>image.crop((x, y, x + side, y + side))\<close>.\<close>

definition crop :: "('a::zero) image \<Rightarrow> int \<Rightarrow> int \<Rightarrow> nat \<Rightarrow> 'a image" where
  "crop im x y side =
     \<lparr>width = side, height = side, pixel = (\<lambda>i j. getpixel im (x + i) (y + j))\<rparr>"

text \<open>
  The elements of \<^verbatim>\<open>range(x, stop, step)\<close> for a non-zero step; \<^verbatim>\<open>range\<close> raises
  \<^verbatim>\<open>ValueError\<close> on a zero step.
\<close>

function range_from :: "int \<Rightarrow> int \<Rightarrow> int \<Rightarrow> int list" where
  "range_from x stop step =
     (if (0 < step \<and> x < stop) \<or> (step < 0 \<and> stop < x)
      then x # range_from (x + step) stop step else [])"
  by pat_completeness auto
termination
  by (relation "measure (\<lambda>(x, stop, step). nat (if 0 < step then stop - x else x - stop))") auto

declare range_from.simps [simp del]

definition py_range :: "int \<Rightarrow> int \<Rightarrow> error + int list" where
  "py_range stop step = (if step = 0 then Inl ValueError else Inr (range_from 0 stop step))"

text \<open>
  The nested loops of \<^verbatim>\<open>extract_patches_rect\<close>: for each \<open>y\<close> the inner \<^verbatim>\<open>range\<close> is
  built anew, so a zero \<open>stride_x\<close> raises only when there is a row to visit.
\<close>

fun patch_rows ::
  "('a::zero) image \<Rightarrow> nat \<Rightarrow> int \<Rightarrow> int \<Rightarrow> int list \<Rightarrow> error + 'a image list" where
  "patch_rows padded_image patch_size stop_x stride_x [] = Inr []"
| "patch_rows padded_image patch_size stop_x stride_x (y # ys) =
     (case py_range stop_x stride_x of
        Inl e \<Rightarrow> Inl e
      | Inr xs \<Rightarrow>
          (case patch_rows padded_image patch_size stop_x stride_x ys of
             Inl e \<Rightarrow> Inl e
           | Inr rest \<Rightarrow> Inr (map (\<lambda>x. crop padded_image x y patch_size) xs @ rest)))"

definition pad_image :: "('a::zero) image \<Rightarrow> nat \<Rightarrow> 'a image" where
  "pad_image im patch_size =
     (let padding_x = (patch_size - width im mod patch_size) mod patch_size;
          padding_y = (patch_size - height im mod patch_size) mod patch_size
      in expand im (padding_x div 2, padding_y div 2,
                    padding_x - padding_x div 2, padding_y - padding_y div 2))"

text \<open>
  \<^verbatim>\<open>extract_patches_rect\<close>. Sizes are naturals, the patch counts arbitrary integers;
  \<^verbatim>\<open>//\<close> is flooring division, which \<open>div\<close> on \<open>int\<close> is as well. Each patch is kept as the
  cropped image (\<^verbatim>\<open>ToTensor\<close> changes the representation only).
\<close>

definition extract_patches_rect ::
  "('a::zero) image \<Rightarrow> nat \<Rightarrow> int \<Rightarrow> int \<Rightarrow> error + 'a image list \<times> int \<times> int \<times> nat \<times> nat" where
  "extract_patches_rect im patch_size patches_per_row patches_per_column =
     (if patch_size = 0 then Inl ZeroDivisionError
      else
        let padded_image = pad_image im patch_size;
            padded_width = width padded_image;
            padded_height = height padded_image
        in if patches_per_row - 1 = 0 then Inl ZeroDivisionError
           else
             let stride_x = (int padded_width - int patch_size) div (patches_per_row - 1)
             in if patches_per_column - 1 = 0 then Inl ZeroDivisionError
                else
                  let stride_y = (int padded_height - int patch_size) div (patches_per_column - 1)
                  in case py_range (int padded_height - int patch_size + 1) stride_y of
                       Inl e \<Rightarrow> Inl e
                     | Inr ys \<Rightarrow>
                         (case patch_rows padded_image patch_size
                                 (int padded_width - int patch_size + 1) stride_x ys of
                            Inl e \<Rightarrow> Inl e
                          | Inr patches \<Rightarrow>
                              (case stack patches of
                                 Inl e \<Rightarrow> Inl e
                               | Inr t \<Rightarrow>
                                   Inr (t, stride_x, stride_y, padded_width, padded_height))))"

section \<open>Embedding the patches\<close>

record FrameArgs =
  patch_size :: nat
  downscale :: int

definition default_args :: FrameArgs where
  "default_args = \<lparr>patch_size = 128, downscale = 32\<rparr>"

text \<open>
  The loop \<^verbatim>\<open>for i in range(0, all_patches.shape[0], 8)\<close>: the model is applied to
  batches of eight patches. The model is a parameter; \<open>model\<close> maps one transformed patch
  to its raw feature vector and a batch is embedded patch by patch.
\<close>

function feature_batches :: "('p \<Rightarrow> vec) \<Rightarrow> 'p list \<Rightarrow> nat \<Rightarrow> tensor2 list" where
  "feature_batches model all_patches i =
     (if i < length all_patches
      then map model (take 8 (drop i all_patches)) # feature_batches model all_patches (i + 8)
      else [])"
  by pat_completeness auto
termination
  by (relation "measure (\<lambda>(model, all_patches, i). length all_patches - i)") auto

declare feature_batches.simps [simp del]

text \<open>\<^verbatim>\<open>torch.cat\<close> of a list of tensors along the rows; it raises on the empty list.\<close>

definition cat :: "tensor2 list \<Rightarrow> error + tensor2" where
  "cat ts = (if ts = [] then Inl RuntimeError else Inr (concat ts))"

text \<open>
  \<^verbatim>\<open>image_features / torch.linalg.norm(image_features, dim=-1, keepdim=True)\<close>. A zero row
  is divided by zero and becomes NaN in torch; statements about normalised rows below
  are made for non-zero rows.
\<close>

definition norm2 :: "vec \<Rightarrow> real" where
  "norm2 v = sqrt (sum_list (map (\<lambda>x. x\<^sup>2) v))"

definition normalize_rows :: "tensor2 \<Rightarrow> tensor2" where
  "normalize_rows T = map (\<lambda>v. map (\<lambda>x. x / norm2 v) v) T"

text \<open>
  The embedding of the patches of one frame, as both \<^verbatim>\<open>get_frame_embeddings\<close> and
  \<^verbatim>\<open>save_frame_embeddings\<close> compute it: transform every patch, embed in batches,
  concatenate, normalise the rows.
\<close>

definition embed_patches ::
  "('p \<Rightarrow> vec) \<Rightarrow> ('q \<Rightarrow> 'p) \<Rightarrow> 'q list \<Rightarrow> error + tensor2" where
  "embed_patches model image_transforms patches =
     (case stack (map image_transforms patches) of
        Inl e \<Rightarrow> Inl e
      | Inr all_patches \<Rightarrow>
          (case cat (feature_batches model all_patches 0) of
             Inl e \<Rightarrow> Inl e
           | Inr image_features \<Rightarrow> Inr (normalize_rows image_features)))"

text \<open>Python's \<^verbatim>\<open>a // b\<close> on integers.\<close>

definition floordiv :: "int \<Rightarrow> int \<Rightarrow> error + int" where
  "floordiv a b = (if b = 0 then Inl ZeroDivisionError else Inr (a div b))"

text \<open>
  \<^verbatim>\<open>get_frame_embeddings\<close> on the decoded frame: patches, features and the grid size
  \<open>(new_w, new_h)\<close>.
\<close>

definition get_frame_embeddings ::
  "FrameArgs \<Rightarrow> (('a::zero) image \<Rightarrow> vec) \<Rightarrow> ('a image \<Rightarrow> 'a image) \<Rightarrow> 'a image
     \<Rightarrow> error + tensor2 \<times> int \<times> int" where
  "get_frame_embeddings args model image_transforms im =
     (case floordiv (int (width im)) (downscale args) of
        Inl e \<Rightarrow> Inl e
      | Inr patches_per_row \<Rightarrow>
     (case floordiv (int (height im)) (downscale args) of
        Inl e \<Rightarrow> Inl e
      | Inr patches_per_column \<Rightarrow>
     (case extract_patches_rect im (patch_size args) patches_per_row patches_per_column of
        Inl e \<Rightarrow> Inl e
      | Inr (patches, stride_x, stride_y, padded_w, padded_h) \<Rightarrow>
     (case embed_patches model image_transforms patches of
        Inl e \<Rightarrow> Inl e
      | Inr image_features \<Rightarrow>
     (case floordiv (int padded_w - int (patch_size args)) stride_x of
        Inl e \<Rightarrow> Inl e
      | Inr qx \<Rightarrow>
     (case floordiv (int padded_h - int (patch_size args)) stride_y of
        Inl e \<Rightarrow> Inl e
      | Inr qy \<Rightarrow> Inr (image_features, qx + 1, qy + 1)))))))"







section \<open>Properties of the rejection loop\<close>

lemma rejection_loop_empty:
  "rejection_loop src [] thr rng p = Some (Inl ValueError)"
  by (subst rejection_loop.simps) (simp add: randint_def)

lemma rejection_loop_step:
  "emb \<noteq> [] \<Longrightarrow> rejection_loop src emb thr rng p =
     (if accepted src emb thr rng p then Some (Inr (emb ! (rng p mod length emb), Suc p))
      else rejection_loop src emb thr rng (Suc p))"
  by (subst rejection_loop.simps) (simp add: randint_def accepted_def Let_def)

lemma rejection_loop_sound_aux:
  assumes "rejection_loop src emb thr rng p = Some r"
  shows "emb \<noteq> [] \<longrightarrow> (\<exists>q\<ge>p. r = Inr (emb ! (rng q mod length emb), Suc q)
           \<and> accepted src emb thr rng q
           \<and> (\<forall>j. p \<le> j \<and> j < q \<longrightarrow> \<not> accepted src emb thr rng j))"
  using assms
proof (induction rule: rejection_loop.raw_induct[rotated 1, consumes 1])
  case (1 loop src emb thr rng p r)
  show ?case
  proof
    assume ne: "emb \<noteq> []"
    show "\<exists>q\<ge>p. r = Inr (emb ! (rng q mod length emb), Suc q) \<and> accepted src emb thr rng q
           \<and> (\<forall>j. p \<le> j \<and> j < q \<longrightarrow> \<not> accepted src emb thr rng j)"
    proof (cases "accepted src emb thr rng p")
      case True
      with 1(2) ne have "r = Inr (emb ! (rng p mod length emb), Suc p)"
        by (auto simp: randint_def accepted_def Let_def)
      with True show ?thesis by (intro exI[of _ p]) auto
    next
      case False
      with 1(2) ne have "loop src emb thr rng (Suc p) = Some r"
        by (auto simp: randint_def accepted_def Let_def)
      from 1(1)[OF this] ne obtain q where q: "q \<ge> Suc p"
        "r = Inr (emb ! (rng q mod length emb), Suc q)" "accepted src emb thr rng q"
        "\<forall>j. Suc p \<le> j \<and> j < q \<longrightarrow> \<not> accepted src emb thr rng j" by blast
      have "\<forall>j. p \<le> j \<and> j < q \<longrightarrow> \<not> accepted src emb thr rng j"
      proof (intro allI impI)
        fix j assume "p \<le> j \<and> j < q"
        then show "\<not> accepted src emb thr rng j"
          using False q(4) by (cases "j = p") auto
      qed
      with q show ?thesis by (intro exI[of _ q]) auto
    qed
  qed
qed

lemma rejection_loop_sound:
  assumes "rejection_loop src emb thr rng p = Some r" and "emb \<noteq> []"
  shows "\<exists>q\<ge>p. r = Inr (emb ! (rng q mod length emb), Suc q) \<and> accepted src emb thr rng q
           \<and> (\<forall>j. p \<le> j \<and> j < q \<longrightarrow> \<not> accepted src emb thr rng j)"
  using rejection_loop_sound_aux[OF assms(1)] assms(2) by blast

lemma rejection_loop_complete:
  assumes "emb \<noteq> []" and "accepted src emb thr rng q" and "p \<le> q"
    and "\<forall>j. p \<le> j \<and> j < q \<longrightarrow> \<not> accepted src emb thr rng j"
  shows "rejection_loop src emb thr rng p = Some (Inr (emb ! (rng q mod length emb), Suc q))"
  using assms(3,4)
proof (induction "q - p" arbitrary: p)
  case 0
  then have "p = q" by simp
  then show ?case using assms(1,2) by (simp add: rejection_loop_step)
next
  case (Suc n)
  then have "p < q" by simp
  with Suc.prems have "\<not> accepted src emb thr rng p" by simp
  moreover have "rejection_loop src emb thr rng (Suc p) = Some (Inr (emb ! (rng q mod length emb), Suc q))"
    using Suc.hyps(2) Suc.prems \<open>p < q\<close> by (intro Suc.hyps(1)) auto
  ultimately show ?case using assms(1) by (simp add: rejection_loop_step)
qed


lemma sample_rounds_sound:
  "sample_rounds src emb thr rng k p = Some (Inr (negs, p')) \<Longrightarrow>
     length negs = k \<and> (\<forall>v\<in>set negs. v \<in> set emb \<and> dot v src < thr)"
proof (induction k arbitrary: p negs)
  case 0
  then show ?case by simp
next
  case (Suc k)
  from Suc.prems obtain neg p1 negs1 where
    loop: "rejection_loop src emb thr rng p = Some (Inr (neg, p1))" and
    rest: "sample_rounds src emb thr rng k p1 = Some (Inr (negs1, p'))" and
    negs: "negs = neg # negs1"
    by (auto split: option.splits sum.splits prod.splits)
  have ne: "emb \<noteq> []"
    using loop by (auto simp: rejection_loop_empty)
  from rejection_loop_sound[OF loop ne] obtain q where
    q: "neg = emb ! (rng q mod length emb)" "accepted src emb thr rng q" by auto
  have "neg \<in> set emb" using q(1) ne by simp
  moreover have "dot neg src < thr" using q by (simp add: accepted_def)
  ultimately show ?case using Suc.IH[OF rest] negs by simp
qed

lemma filter_upt_none:
  "\<forall>j. a \<le> j \<and> j < b \<longrightarrow> \<not> P j \<Longrightarrow> filter P [a..<b] = []"
  by (simp add: filter_empty_conv)

lemma count_split:
  assumes "a \<le> q" "q < b" "P q" "\<forall>j. a \<le> j \<and> j < q \<longrightarrow> \<not> P j"
  shows "length (filter P [a..<b]) = Suc (length (filter P [Suc q..<b]))"
proof -
  have "[a..<b] = [a..<q] @ [q..<b]"
    using assms(1,2) by (metis le_Suc_ex less_imp_le_nat upt_add_eq_append)
  also have "[q..<b] = q # [Suc q..<b]"
    using assms(2) by (rule upt_conv_Cons)
  finally have "[a..<b] = [a..<q] @ q # [Suc q..<b]" .
  then show ?thesis using assms(3) filter_upt_none[OF assms(4)] by simp
qed

lemma sample_rounds_terminates_iff:
  assumes "emb \<noteq> []"
  shows "(\<exists>r. sample_rounds src emb thr rng k p = Some r) \<longleftrightarrow>
         (\<exists>b. k \<le> length (filter (accepted src emb thr rng) [p..<b]))"
proof (induction k arbitrary: p)
  case 0
  then show ?case by simp
next
  case (Suc k)
  let ?P = "accepted src emb thr rng"
  show ?case
  proof
    assume "\<exists>r. sample_rounds src emb thr rng (Suc k) p = Some r"
    then obtain r where r: "sample_rounds src emb thr rng (Suc k) p = Some r" ..
    then obtain r1 where loop: "rejection_loop src emb thr rng p = Some r1"
      by (auto split: option.splits)
    from rejection_loop_sound[OF loop assms] obtain q where q: "p \<le> q"
      "r1 = Inr (emb ! (rng q mod length emb), Suc q)" "?P q"
      "\<forall>j. p \<le> j \<and> j < q \<longrightarrow> \<not> ?P j" by blast
    from r loop q(2) obtain r2 where "sample_rounds src emb thr rng k (Suc q) = Some r2"
      by (auto split: option.splits)
    with Suc.IH[of "Suc q"] obtain b where b: "k \<le> length (filter ?P [Suc q..<b])" by blast
    have "Suc k \<le> length (filter ?P [p..<max b (Suc q)])"
    proof -
      have "length (filter ?P [Suc q..<b]) \<le> length (filter ?P [Suc q..<max b (Suc q)])"
        by (cases "b \<le> Suc q") (simp_all add: max_def)
      moreover have "length (filter ?P [p..<max b (Suc q)]) =
          Suc (length (filter ?P [Suc q..<max b (Suc q)]))"
        by (rule count_split[OF q(1) _ q(3) q(4)]) simp
      ultimately show ?thesis using b by simp
    qed
    then show "\<exists>b. Suc k \<le> length (filter ?P [p..<b])" ..
  next
    assume "\<exists>b. Suc k \<le> length (filter ?P [p..<b])"
    then obtain b where b: "Suc k \<le> length (filter ?P [p..<b])" ..
    then have "filter ?P [p..<b] \<noteq> []" by auto
    then obtain j where j: "p \<le> j" "j < b" "?P j"
      by (auto simp: filter_empty_conv)
    define q where "q = (LEAST j. p \<le> j \<and> ?P j)"
    have qP: "p \<le> q \<and> ?P q" unfolding q_def
      by (rule LeastI[of "\<lambda>j. p \<le> j \<and> ?P j" j]) (use j in simp)
    have qle: "q \<le> j" unfolding q_def
      by (rule Least_le) (use j in simp)
    have qmin: "\<forall>i. p \<le> i \<and> i < q \<longrightarrow> \<not> ?P i"
      unfolding q_def using not_less_Least by blast
    have loop: "rejection_loop src emb thr rng p = Some (Inr (emb ! (rng q mod length emb), Suc q))"
      using rejection_loop_complete[OF assms] qP qmin by blast
    have "length (filter ?P [p..<b]) = Suc (length (filter ?P [Suc q..<b]))"
      by (rule count_split) (use qP qle j qmin in auto)
    with b have "k \<le> length (filter ?P [Suc q..<b])" by simp
    with Suc.IH[of "Suc q"] obtain r2 where
      "sample_rounds src emb thr rng k (Suc q) = Some r2" by blast
    with loop show "\<exists>r. sample_rounds src emb thr rng (Suc k) p = Some r"
      by (auto split: sum.splits prod.splits)
  qed
qed

section \<open>Claims about negative sampling\<close>

text \<open>
  C2. Whenever \<^verbatim>\<open>negative_sample\<close> returns, for \<open>k \<ge> 1\<close>, it returns exactly \<open>k\<close>
  vectors; each is a row of the embedding matrix whose product with the source feature is
  strictly below the threshold.
\<close>

theorem negative_sample_rows_below_threshold:
  assumes "1 \<le> k"
    and "negative_sample source_feature embedding k threshold rng p = Some (Inr (negatives, p'))"
  shows "length negatives = k \<and>
         (\<forall>v\<in>set negatives. v \<in> set embedding \<and> dot v source_feature < threshold)"
proof -
  from assms(2) have "sample_rounds source_feature embedding threshold rng k p
      = Some (Inr (negatives, p'))"
    by (auto simp: negative_sample_def stack_def split: option.splits sum.splits prod.splits if_splits)
  then show ?thesis by (rule sample_rounds_sound)
qed

text \<open>
  A run with two rounds over the stream \<open>0, 1, 2, 3\<close>: rows \<open>0\<close> and \<open>2 mod 2\<close> are
  rejected, rows \<open>1\<close> and \<open>3 mod 2\<close> accepted.
\<close>

lemma negative_sample_example:
  "negative_sample [1, 0] [[1, 0], [0, 1]] 2 (1/2) (\<lambda>n. n) 0 = Some (Inr ([[0, 1], [0, 1]], 4))"
proof -
  let ?loop = "rejection_loop [1, 0] [[1, 0], [0, 1]] (1/2) (\<lambda>n. n)"
  have a0: "\<not> accepted [1, 0] [[1, 0], [0, 1]] (1/2) (\<lambda>n. n) 0"
    and a1: "accepted [1, 0] [[1, 0], [0, 1]] (1/2) (\<lambda>n. n) 1"
    and a2: "\<not> accepted [1, 0] [[1, 0], [0, 1]] (1/2) (\<lambda>n. n) 2"
    and a3: "accepted [1, 0] [[1, 0], [0, 1]] (1/2) (\<lambda>n. n) 3"
    by (simp_all add: accepted_def dot_def numeral_2_eq_2[symmetric])
  have l0: "?loop 0 = Some (Inr ([0, 1], 2))"
    using a0 a1 by (simp add: rejection_loop_step[of _ _ _ _ 0] rejection_loop_step[of _ _ _ _ "Suc 0"]
        numeral_2_eq_2[symmetric])
  have l2: "?loop 2 = Some (Inr ([0, 1], 4))"
    using a2 a3 by (simp add: rejection_loop_step[of _ _ _ _ 2] rejection_loop_step[of _ _ _ _ 3]
        numeral_2_eq_2[symmetric])
  have "sample_rounds [1, 0] [[1, 0], [0, 1]] (1/2) (\<lambda>n. n) (Suc (Suc 0)) 0
          = Some (Inr ([[0, 1], [0, 1]], 4))"
    using l0 l2 by simp
  then show ?thesis
    by (simp add: negative_sample_def stack_def numeral_2_eq_2)
qed

theorem negative_sample_rows_below_threshold_witness:
  "(1::nat) \<le> 2 \<and>
   negative_sample [1, 0] [[1, 0], [0, 1]] 2 (1/2) (\<lambda>n. n) 0 = Some (Inr ([[0, 1], [0, 1]], 4)) \<and>
   length [[0, 1], [0, 1::real]] = 2 \<and>
   [0, 1] \<in> set [[1, 0], [0, 1::real]] \<and> dot [0, 1] [1, 0] < 1/2"
  using negative_sample_rows_below_threshold[OF _ negative_sample_example] negative_sample_example
  by simp

section \<open>Termination of negative sampling\<close>

lemma rejection_loop_diverges:
  assumes "emb \<noteq> []" and "\<forall>q\<ge>p. \<not> accepted src emb thr rng q"
  shows "rejection_loop src emb thr rng p = None"
proof (cases "rejection_loop src emb thr rng p")
  case None
  then show ?thesis .
next
  case (Some r)
  from rejection_loop_sound[OF Some assms(1)] assms(2) show ?thesis by blast
qed

lemma sample_rounds_no_error:
  assumes "emb \<noteq> []"
  shows "sample_rounds src emb thr rng k p = Some r \<Longrightarrow> \<exists>negs p'. r = Inr (negs, p')"
proof (induction k arbitrary: p r)
  case 0
  then show ?case by auto
next
  case (Suc k)
  from Suc.prems obtain r1 where loop: "rejection_loop src emb thr rng p = Some r1"
    by (auto split: option.splits)
  from rejection_loop_sound[OF loop assms] obtain neg p1 where r1: "r1 = Inr (neg, p1)" by blast
  from Suc.prems loop r1 obtain r2 where
    rest: "sample_rounds src emb thr rng k p1 = Some r2"
    by (auto split: option.splits)
  from Suc.IH[OF rest] obtain negs p2 where "r2 = Inr (negs, p2)" by blast
  with Suc.prems loop r1 rest show ?case by auto
qed

lemma negative_sample_terminates_iff:
  assumes "emb \<noteq> []" and "1 \<le> k"
  shows "(\<exists>negs p'. negative_sample src emb k thr rng p = Some (Inr (negs, p'))) \<longleftrightarrow>
         (\<exists>b. k \<le> length (filter (accepted src emb thr rng) [p..<b]))"
proof -
  have "(\<exists>negs p'. negative_sample src emb k thr rng p = Some (Inr (negs, p'))) \<longleftrightarrow>
        (\<exists>r. sample_rounds src emb thr rng k p = Some r)"
  proof
    assume "\<exists>negs p'. negative_sample src emb k thr rng p = Some (Inr (negs, p'))"
    then show "\<exists>r. sample_rounds src emb thr rng k p = Some r"
      by (auto simp: negative_sample_def split: option.splits)
  next
    assume "\<exists>r. sample_rounds src emb thr rng k p = Some r"
    then obtain r where r: "sample_rounds src emb thr rng k p = Some r" ..
    from sample_rounds_no_error[OF assms(1) r] obtain negs p' where r': "r = Inr (negs, p')"
      by blast
    from sample_rounds_sound[OF r[unfolded r']] assms(2) have "negs \<noteq> []" by auto
    with r r' show "\<exists>negs p'. negative_sample src emb k thr rng p = Some (Inr (negs, p'))"
      by (simp add: negative_sample_def stack_def)
  qed
  then show ?thesis
    using sample_rounds_terminates_iff[OF assms(1)] by simp
qed

lemma negative_sample_diverges:
  assumes "emb \<noteq> []" and "\<forall>q\<ge>p. \<not> accepted src emb thr rng q"
  shows "negative_sample src emb (Suc k) thr rng p = None"
  using rejection_loop_diverges[OF assms] by (simp add: negative_sample_def)

lemma quantile_two: "quantile [1, 0] 0.7 = Inr (7/10)"
  by (simp add: quantile_def Let_def)


lemma frame_similarity_two: "concat (matmul_T [[1, 0], [0, 1]] [[1, 0]]) = [1, 0]"
  by (simp add: matmul_T_def dot_def)

text \<open>
  C6, as stated, fails. On the frame with the two patches \<open>[1, 0]\<close> and \<open>[0, 1]\<close> and
  the source \<open>[1, 0]\<close> the similarities are \<open>1\<close> and \<open>0\<close> and the threshold is \<open>0.7\<close>; on
  the index stream that draws patch \<open>0\<close> for ever, every draw is rejected and the sampling
  step never returns.
\<close>

theorem frame_negatives_diverges:
  "frame_negatives [[1, 0], [0, 1]] [1, 0] (\<lambda>n. 0) 0 = None"
proof -
  have "\<forall>q\<ge>0. \<not> accepted [1, 0] [[1, 0], [0, 1]] (7/10) (\<lambda>n. 0) q"
    by (simp add: accepted_def dot_def)
  then have "negative_sample [1, 0] [[1, 0], [0, 1]] (Suc 39) (7/10) (\<lambda>n. 0) 0 = None"
    by (intro negative_sample_diverges) simp_all
  then show ?thesis
    by (simp add: frame_negatives_def frame_similarity_two quantile_two)
qed

text \<open>
  C6, amended. For a frame with at least one patch, the sampling step of
  \<^verbatim>\<open>process_frames\<close> (\<open>k = 40\<close>, threshold the 0.7-quantile of the frame's unscaled
  similarities) returns its 40 negatives exactly when the random index stream, read from the
  current position on, holds at least 40 accepted draws, that is, draws of patches strictly
  below the threshold; on every other stream the loop runs for ever.
\<close>

theorem frame_negatives_terminates_iff:
  assumes "embedding \<noteq> []"
    and "quantile (concat (matmul_T embedding [source_feature])) 0.7 = Inr threshold"
  shows "(\<exists>negatives p'. frame_negatives embedding source_feature rng p
             = Some (Inr (negatives, p'))) \<longleftrightarrow>
         (\<exists>b. 40 \<le> length (filter (accepted source_feature embedding threshold rng) [p..<b]))"
  using negative_sample_terminates_iff[OF assms(1), of 40 source_feature threshold rng p] assms(2)
  by (simp add: frame_negatives_def)

theorem frame_negatives_terminates_iff_witness:
  "[[1, 0], [0, 1 :: real]] \<noteq> [] \<and>
   quantile (concat (matmul_T [[1, 0], [0, 1]] [[1, 0]])) 0.7 = Inr (7/10) \<and>
   40 \<le> length (filter (accepted [1, 0] [[1, 0], [0, 1]] (7/10) (\<lambda>n. 1)) [0..<40]) \<and>
   (\<exists>negatives p'. frame_negatives [[1, 0], [0, 1]] [1, 0] (\<lambda>n. 1) 0
       = Some (Inr (negatives, p')))"
proof -
  have ne: "[[1, 0], [0, 1 :: real]] \<noteq> []" by simp
  have q: "quantile (concat (matmul_T [[1, 0], [0, 1]] [[1, 0]])) 0.7 = Inr (7/10)"
    by (simp add: frame_similarity_two quantile_two)
  have "\<forall>q. accepted [1, 0] [[1, 0], [0, 1]] (7/10) (\<lambda>n. 1) q"
    by (simp add: accepted_def dot_def)
  then have c: "40 \<le> length (filter (accepted [1, 0] [[1, 0], [0, 1]] (7/10) (\<lambda>n. 1)) [0..<40])"
    by simp
  then have "\<exists>b. 40 \<le> length (filter (accepted [1, 0] [[1, 0], [0, 1]] (7/10) (\<lambda>n. 1)) [0..<b])"
    by (rule exI)
  with frame_negatives_terminates_iff[OF ne q, of "\<lambda>n. 1" 0] ne q c show ?thesis by blast
qed


section \<open>The score of a patch before the transform\<close>

lemma dot_scale_left: "dot (map ((*) c) u) v = c * dot u v"
proof (induction u arbitrary: v)
  case Nil
  then show ?case by (simp add: dot_def)
next
  case (Cons a u)
  then show ?case by (cases v) (simp_all add: dot_def algebra_simps)
qed

lemma dot_scale_left_fun: "dot (map ((*) c) u) = (\<lambda>v. c * dot u v)"
  by (rule ext) (rule dot_scale_left)

lemma similarity_before_MAP_row:
  assumes "i < length embedding" and "negatives \<noteq> []"
  shows "similarity_before_MAP embedding source_feature supervision_feature lambda negatives ! i =
    [case supervision_feature of
       None \<Rightarrow>
         Some (SCALE_AUDIO_IMAGE * dot (embedding ! i) source_feature
               - lambda * SCALE_AUDIO_IMAGE
                 * (sum_list (map (dot (embedding ! i)) negatives) / real (length negatives)))
     | Some supervision \<Rightarrow>
         if supervision = [] then None
         else Some ((SCALE_AUDIO_IMAGE * dot (embedding ! i) source_feature
                     + sum_list (map (\<lambda>s. SCALE_IMAGE_TEXT * dot (embedding ! i) s) supervision)
                       / real (length supervision)) / 2
               - lambda * SCALE_AUDIO_IMAGE
                 * (sum_list (map (dot (embedding ! i)) negatives) / real (length negatives)))]"
  using assms
  by (cases supervision_feature)
     (simp_all add: similarity_before_MAP_def Let_def matmul_T_def smul_def nan_smul_def
        nan_vsmul_def tadd_def tsub_def tdiv_def mean_lastdim_def mean_lastdim_keepdim_def
        unsqueeze_def finite_tensor_def nan_lift_def mean_def dot_scale_left_fun)

lemma frame_negatives_length:
  assumes "frame_negatives embedding source_feature rng p = Some (Inr (negatives, p'))"
  shows "length negatives = 40"
proof -
  from assms obtain threshold where
    "negative_sample source_feature embedding 40 threshold rng p = Some (Inr (negatives, p'))"
    by (auto simp: frame_negatives_def Let_def split: sum.splits)
  then have "sample_rounds source_feature embedding threshold rng 40 p
      = Some (Inr (negatives, p'))"
    by (auto simp: negative_sample_def stack_def split: option.splits sum.splits prod.splits if_splits)
  from sample_rounds_sound[OF this] show ?thesis by simp
qed

lemma sample_rounds_constant_stream:
  assumes "emb \<noteq> []" and "\<forall>q. accepted src emb thr (\<lambda>n. c) q"
  shows "sample_rounds src emb thr (\<lambda>n. c) k p
           = Some (Inr (replicate k (emb ! (c mod length emb)), p + k))"
proof (induction k arbitrary: p)
  case 0
  then show ?case by simp
next
  case (Suc k)
  have "rejection_loop src emb thr (\<lambda>n. c) p = Some (Inr (emb ! (c mod length emb), Suc p))"
    using assms by (simp add: rejection_loop_step)
  then show ?case using Suc.IH[of "Suc p"] by simp
qed

lemma frame_negatives_example:
  "frame_negatives [[1, 0], [0, 1]] [1, 0] (\<lambda>n. 1) 0 = Some (Inr (replicate 40 [0, 1], 40))"
proof -
  have "\<forall>q. accepted [1, 0] [[1, 0], [0, 1]] (7/10) (\<lambda>n. 1) q"
    by (simp add: accepted_def dot_def)
  then have "sample_rounds [1, 0] [[1, 0], [0, 1]] (7/10) (\<lambda>n. 1) 40 0
      = Some (Inr (replicate 40 ([[1, 0], [0, 1]] ! (1 mod length [[1, 0], [0, 1 :: real]])), 0 + 40))"
    by (intro sample_rounds_constant_stream) simp_all
  then show ?thesis
    by (simp add: frame_negatives_def frame_similarity_two quantile_two negative_sample_def
        stack_def)
qed

lemma score_frame_example:
  "score_frame [[1, 0], [0, 1]] [1, 0] (Some [[1, 0]]) (1/5) (\<lambda>n. 1) 0
     = Some (Inr ([[Some 75.06115], [Some (-13.6264)]], 40))"
  unfolding score_frame_def frame_negatives_example
  by (simp add: similarity_before_MAP_def Let_def
      matmul_T_def smul_def nan_smul_def nan_vsmul_def tadd_def tsub_def tdiv_def
      mean_lastdim_def mean_lastdim_keepdim_def unsqueeze_def finite_tensor_def nan_lift_def
      dot_def mean_def SCALE_AUDIO_IMAGE_def SCALE_IMAGE_TEXT_def sum_list_replicate)

text \<open>
  On a frame whose patches are all equally similar to the source, the threshold is that
  similarity and every draw is rejected: no stream of indices yields negatives, nor a score.
\<close>

lemma uniform_frame_never_sampled:
  "frame_negatives [[1, 0], [1, 0]] [1, 0] rng p = None"
proof -
  have q: "quantile (concat (matmul_T [[1, 0], [1, 0]] [[1, 0]])) 0.7 = Inr 1"
    by (simp add: matmul_T_def dot_def quantile_def Let_def)
  have "\<forall>q\<ge>p. \<not> accepted [1, 0] [[1, 0], [1, 0]] 1 rng q"
  proof (intro allI impI)
    fix q
    have "[[1, 0], [1, 0 :: real]] ! (rng q mod length [[1, 0], [1, 0 :: real]])
        \<in> set [[1, 0], [1, 0]]"
      by (intro nth_mem) simp
    then have "[[1, 0], [1, 0 :: real]] ! (rng q mod length [[1, 0], [1, 0 :: real]]) = [1, 0]"
      by simp
    then show "\<not> accepted [1, 0] [[1, 0], [1, 0]] 1 rng q"
      unfolding accepted_def by (simp add: dot_def)
  qed
  then have "negative_sample [1, 0] [[1, 0], [1, 0]] (Suc 39) 1 rng p = None"
    by (intro negative_sample_diverges) simp_all
  then show ?thesis
    by (simp add: frame_negatives_def q)
qed

lemma uniform_frame_never_scored:
  "score_frame [[1, 0], [1, 0]] [1, 0] supervision_feature lambda rng p = None"
  by (simp add: score_frame_def uniform_frame_never_sampled)

text \<open>
  C1, as stated, fails: it speaks of the score of every frame, and a frame need not get
  one. On the frame of two equal patches \<open>[1, 0]\<close> with the source \<open>[1, 0]\<close> the sampling
  of negatives never returns, here on the stream \<open>0, 1, 2, ...\<close> (and on every other, by
  \<open>uniform_frame_never_scored\<close>).
\<close>

theorem uniform_frame_has_no_score:
  "score_frame [[1, 0], [1, 0]] [1, 0] None (1/5) (\<lambda>n. n) 0 = None"
  by (rule uniform_frame_never_scored)

text \<open>
  C1, amended. In \<^verbatim>\<open>process_frames\<close>, every frame on which the sampling of negatives
  returns gets a score: there are 40 negatives, and the score of patch \<open>i\<close> handed to
  \<^verbatim>\<open>MAP\<close> is \<open>SCALE_AUDIO_IMAGE\<close> times the product of the patch with the source feature,
  minus \<open>lambda\<close> times \<open>SCALE_AUDIO_IMAGE\<close> times the mean product of the patch with the 40
  sampled negatives; with a supervision feature of at least one row the first term is the
  average of the scaled source similarity and the mean scaled supervision similarity, and
  with a supervision feature of no rows the score is NaN. A frame on which the sampling
  never returns gets no score.
\<close>

theorem score_before_MAP:
  "(frame_negatives embedding source_feature rng p = Some (Inr (negatives, p')) \<and>
    i < length embedding \<longrightarrow>
      length negatives = 40 \<and>
      (\<exists>similarity.
         score_frame embedding source_feature supervision_feature lambda rng p
           = Some (Inr (similarity, p')) \<and>
         similarity ! i =
           [case supervision_feature of
              None \<Rightarrow>
                Some (SCALE_AUDIO_IMAGE * dot (embedding ! i) source_feature
                      - lambda * SCALE_AUDIO_IMAGE
                        * (sum_list (map (dot (embedding ! i)) negatives) / 40))
            | Some supervision \<Rightarrow>
                if supervision = [] then None
                else Some ((SCALE_AUDIO_IMAGE * dot (embedding ! i) source_feature
                            + sum_list (map (\<lambda>s. SCALE_IMAGE_TEXT * dot (embedding ! i) s)
                                          supervision)
                              / real (length supervision)) / 2
                      - lambda * SCALE_AUDIO_IMAGE
                        * (sum_list (map (dot (embedding ! i)) negatives) / 40))])) \<and>
   (frame_negatives embedding source_feature rng p = None \<longrightarrow>
      score_frame embedding source_feature supervision_feature lambda rng p = None)"
proof (intro conjI impI)
  assume h: "frame_negatives embedding source_feature rng p = Some (Inr (negatives, p')) \<and>
    i < length embedding"
  then have n: "frame_negatives embedding source_feature rng p = Some (Inr (negatives, p'))"
    and i: "i < length embedding" by simp_all
  show l: "length negatives = 40" using n by (rule frame_negatives_length)
  then have ne: "negatives \<noteq> []" by auto
  have forty: "real (length negatives) = 40" using l by simp
  note row = similarity_before_MAP_row[OF i ne, of source_feature supervision_feature
      lambda, unfolded forty]
  have s: "score_frame embedding source_feature supervision_feature lambda rng p
      = Some (Inr (similarity_before_MAP embedding source_feature supervision_feature lambda
                     negatives, p'))"
    using n by (simp add: score_frame_def)
  from s row show "\<exists>similarity.
         score_frame embedding source_feature supervision_feature lambda rng p
           = Some (Inr (similarity, p')) \<and>
         similarity ! i =
           [case supervision_feature of
              None \<Rightarrow>
                Some (SCALE_AUDIO_IMAGE * dot (embedding ! i) source_feature
                      - lambda * SCALE_AUDIO_IMAGE
                        * (sum_list (map (dot (embedding ! i)) negatives) / 40))
            | Some supervision \<Rightarrow>
                if supervision = [] then None
                else Some ((SCALE_AUDIO_IMAGE * dot (embedding ! i) source_feature
                            + sum_list (map (\<lambda>s. SCALE_IMAGE_TEXT * dot (embedding ! i) s)
                                          supervision)
                              / real (length supervision)) / 2
                      - lambda * SCALE_AUDIO_IMAGE
                        * (sum_list (map (dot (embedding ! i)) negatives) / 40))]"
    by (intro exI[of _ "similarity_before_MAP embedding source_feature supervision_feature
          lambda negatives"] conjI)
next
  assume "frame_negatives embedding source_feature rng p = None"
  then show "score_frame embedding source_feature supervision_feature lambda rng p = None"
    by (simp add: score_frame_def)
qed

theorem score_before_MAP_witness:
  "frame_negatives [[1, 0], [0, 1]] [1, 0] (\<lambda>n. 1) 0 = Some (Inr (replicate 40 [0, 1], 40)) \<and>
   (1::nat) < length [[1, 0], [0, 1 :: real]] \<and>
   length (replicate 40 [0, 1 :: real]) = 40 \<and>
   score_frame [[1, 0], [0, 1]] [1, 0] (Some [[1, 0]]) (1/5) (\<lambda>n. 1) 0
     = Some (Inr ([[Some 75.06115], [Some (-13.6264)]], 40)) \<and>
   [[Some 75.06115], [Some (-13.6264)]] ! 1 =
     [Some ((SCALE_AUDIO_IMAGE * dot [0, 1] [1, 0]
             + sum_list (map (\<lambda>s. SCALE_IMAGE_TEXT * dot [0, 1] s) [[1, 0]])
               / real (length [[1, 0 :: real]])) / 2
        - (1/5) * SCALE_AUDIO_IMAGE
          * (sum_list (map (dot [0, 1]) (replicate 40 [0, 1])) / 40))] \<and>
   frame_negatives [[1, 0], [1, 0]] [1, 0] (\<lambda>n. n) 0 = None \<and>
   score_frame [[1, 0], [1, 0]] [1, 0] (Some [[1, 0]]) (1/5) (\<lambda>n. n) 0 = None"
proof -
  have l: "(1::nat) < length [[1, 0], [0, 1 :: real]]" by simp
  note t = score_before_MAP[where embedding = "[[1, 0], [0, 1]]" and source_feature = "[1, 0]"
      and rng = "\<lambda>n. 1" and p = 0 and negatives = "replicate 40 [0, 1]" and p' = 40 and i = 1
      and supervision_feature = "Some [[1, 0]]" and lambda = "1/5", THEN conjunct1]
  from t frame_negatives_example l obtain similarity where
    s: "score_frame [[1, 0], [0, 1]] [1, 0] (Some [[1, 0]]) (1/5) (\<lambda>n. 1) 0
          = Some (Inr (similarity, 40))" and
    r: "similarity ! 1 =
     [Some ((SCALE_AUDIO_IMAGE * dot [0, 1] [1, 0]
             + sum_list (map (\<lambda>s. SCALE_IMAGE_TEXT * dot [0, 1] s) [[1, 0]])
               / real (length [[1, 0 :: real]])) / 2
        - (1/5) * SCALE_AUDIO_IMAGE
          * (sum_list (map (dot [0, 1]) (replicate 40 [0, 1])) / 40))]"
    by auto
  from s[unfolded score_frame_example]
  have e: "similarity = [[Some 75.06115], [Some (-13.6264)]]" by simp
  have z: "score_frame [[1, 0], [1, 0]] [1, 0] (Some [[1, 0]]) (1/5) (\<lambda>n. n) 0 = None"
    using score_before_MAP[where embedding = "[[1, 0], [1, 0]]" and source_feature = "[1, 0]"
      and rng = "\<lambda>n. n" and p = 0 and supervision_feature = "Some [[1, 0]]"
      and lambda = "1/5", THEN conjunct2] uniform_frame_never_sampled
    by simp
  from frame_negatives_example l s r z uniform_frame_never_sampled[of "\<lambda>n. n" 0]
  show ?thesis unfolding e by (intro conjI) simp_all
qed


section \<open>Embedding the patches of a frame\<close>

lemma concat_feature_batches:
  "concat (feature_batches model all_patches i) = map model (drop i all_patches)"
proof (induction model all_patches i rule: feature_batches.induct)
  case (1 model all_patches i)
  show ?case
  proof (cases "i < length all_patches")
    case True
    have "map model (take 8 (drop i all_patches)) @ map model (drop (i + 8) all_patches)
        = map model (take 8 (drop i all_patches) @ drop 8 (drop i all_patches))"
      by (simp add: add.commute)
    also have "\<dots> = map model (drop i all_patches)"
      by (simp only: append_take_drop_id)
    finally show ?thesis
      using True "1.IH" by (subst feature_batches.simps) simp
  next
    case False
    then show ?thesis by (subst feature_batches.simps) simp
  qed
qed

lemma feature_batches_nonempty:
  "all_patches \<noteq> [] \<Longrightarrow> feature_batches model all_patches 0 \<noteq> []"
  by (subst feature_batches.simps) simp

lemma embed_patches_eq:
  "embed_patches model image_transforms patches =
     (if patches = [] then Inl RuntimeError
      else Inr (normalize_rows (map (\<lambda>q. model (image_transforms q)) patches)))"
  by (simp add: embed_patches_def stack_def cat_def feature_batches_nonempty
      concat_feature_batches comp_def)









lemma embed_patches_row:
  assumes "i < length patches"
  shows "\<exists>F. embed_patches model image_transforms patches = Inr F \<and>
           length F = length patches \<and>
           F ! i = map (\<lambda>x. x / norm2 (model (image_transforms (patches ! i))))
                     (model (image_transforms (patches ! i)))"
proof -
  from assms have "patches \<noteq> []" by auto
  then show ?thesis
    using assms by (simp add: embed_patches_eq normalize_rows_def)
qed

text \<open>
  C7. With the model a fixed function of one image, the feature of patch \<open>i\<close> depends on
  patch \<open>i\<close> alone: two patch lists of equal length that agree at index \<open>i\<close> get the same
  normalised feature at \<open>i\<close>, namely the normalised embedding of that patch. Replacing any
  other patch (\<open>patches' = patches[j := q]\<close> with \<open>j \<noteq> i\<close>) is an instance.
\<close>

theorem patch_embedded_independently:
  assumes "length patches = length patches'"
    and "i < length patches"
    and "patches ! i = patches' ! i"
  shows "\<exists>F F'. embed_patches model image_transforms patches = Inr F \<and>
           embed_patches model image_transforms patches' = Inr F' \<and>
           length F = length patches \<and> length F' = length patches \<and>
           F ! i = F' ! i \<and>
           F ! i = map (\<lambda>x. x / norm2 (model (image_transforms (patches ! i))))
                     (model (image_transforms (patches ! i)))"
proof -
  from embed_patches_row[OF assms(2), of model image_transforms] obtain F where
    F: "embed_patches model image_transforms patches = Inr F" "length F = length patches"
       "F ! i = map (\<lambda>x. x / norm2 (model (image_transforms (patches ! i))))
                  (model (image_transforms (patches ! i)))"
    by blast
  have "i < length patches'" using assms(1,2) by simp
  from embed_patches_row[OF this, of model image_transforms] obtain F' where
    F': "embed_patches model image_transforms patches' = Inr F'" "length F' = length patches'"
       "F' ! i = map (\<lambda>x. x / norm2 (model (image_transforms (patches' ! i))))
                  (model (image_transforms (patches' ! i)))"
    by blast
  from F F' assms(1,3) show ?thesis by simp
qed

theorem patch_embedded_independently_witness:
  "length [[3, 4], [1, 0 :: real]] = length ([[3, 4], [1, 0]] [1 := [0, 2 :: real]]) \<and>
   (0::nat) < length [[3, 4], [1, 0 :: real]] \<and>
   [[3, 4], [1, 0 :: real]] ! 0 = ([[3, 4], [1, 0]] [1 := [0, 2]]) ! 0 \<and>
   (\<exists>F F'. embed_patches (\<lambda>v. v) (\<lambda>v. v) [[3, 4], [1, 0]] = Inr F \<and>
      embed_patches (\<lambda>v. v) (\<lambda>v. v) ([[3, 4], [1, 0]] [1 := [0, 2]]) = Inr F' \<and>
      F ! 0 = F' ! 0 \<and> F ! 0 = map (\<lambda>x. x / norm2 [3, 4]) [3, 4])"
proof -
  have a: "length [[3, 4], [1, 0 :: real]] = length ([[3, 4], [1, 0]] [1 := [0, 2 :: real]])"
    by simp
  have b: "(0::nat) < length [[3, 4], [1, 0 :: real]]" by simp
  have c: "[[3, 4], [1, 0 :: real]] ! 0 = ([[3, 4], [1, 0]] [1 := [0, 2]]) ! 0" by simp
  from patch_embedded_independently[OF a b c, of "\<lambda>v. v" "\<lambda>v. v"] a b c
  show ?thesis by auto
qed


section \<open>Ranges and padding\<close>

lemma range_from_up_set:
  "0 < step \<Longrightarrow> v \<in> set (range_from x stop step) \<Longrightarrow> x \<le> v \<and> v < stop"
proof (induction x stop step rule: range_from.induct)
  case (1 x stop step)
  from "1.prems"(2) have unfolded:
    "x < stop \<and> (v = x \<or> v \<in> set (range_from (x + step) stop step))"
    by (subst (asm) range_from.simps) (use "1.prems"(1) in \<open>auto split: if_splits\<close>)
  show ?case
  proof (cases "v = x")
    case True
    with unfolded show ?thesis by simp
  next
    case False
    with unfolded have "v \<in> set (range_from (x + step) stop step)" by simp
    with "1.IH" unfolded "1.prems"(1) have "x + step \<le> v \<and> v < stop" by simp
    with "1.prems"(1) show ?thesis by simp
  qed
qed

lemma range_from_up_length:
  "0 < step \<Longrightarrow> x < stop \<Longrightarrow>
     int (length (range_from x stop step)) = (stop - x - 1) div step + 1"
proof (induction x stop step rule: range_from.induct)
  case (1 x stop step)
  show ?case
  proof (cases "x + step < stop")
    case True
    have "(stop - x - 1) div step = (stop - (x + step) - 1) div step + 1"
    proof -
      have "stop - x - 1 = (stop - (x + step) - 1) + 1 * step" by simp
      then show ?thesis using 1(2) by (metis div_add_self2 less_irrefl mult_1)
    qed
    moreover have "int (length (range_from (x + step) stop step))
        = (stop - (x + step) - 1) div step + 1"
      using 1 True by simp
    ultimately show ?thesis
      using 1(2,3) by (subst range_from.simps) simp
  next
    case False
    then have "range_from (x + step) stop step = []"
      by (subst range_from.simps) (use 1(2) in simp)
    moreover have "(stop - x - 1) div step = 0"
      using False 1(2,3) by (simp add: div_pos_pos_trivial)
    ultimately show ?thesis using 1(2,3) by (subst range_from.simps) simp
  qed
qed

lemma range_from_empty_iff:
  "range_from x stop step = [] \<longleftrightarrow> \<not> ((0 < step \<and> x < stop) \<or> (step < 0 \<and> stop < x))"
  by (subst range_from.simps) simp

lemma pad_amount:
  assumes "0 < ps"
  shows "ps dvd w + (ps - w mod ps) mod ps" and "(ps - w mod ps) mod ps < (ps :: nat)"
    and "\<And>m. ps dvd m \<Longrightarrow> w \<le> m \<Longrightarrow> w + (ps - w mod ps) mod ps \<le> m"
proof -
  let ?pad = "(ps - w mod ps) mod ps"
  show lt: "?pad < ps" using assms by simp
  show dv: "ps dvd w + ?pad"
  proof (cases "w mod ps = 0")
    case True
    then show ?thesis by auto
  next
    case False
    then have pad: "?pad = ps - w mod ps" using assms by simp
    have lt': "w mod ps < ps" using assms by simp
    have "w div ps * ps + w mod ps = w" by simp
    then have "w + ?pad = w div ps * ps + (w mod ps + (ps - w mod ps))"
      unfolding pad by simp
    also have "\<dots> = w div ps * ps + ps" using lt' by simp
    finally have "w + ?pad = (w div ps + 1) * ps" by simp
    then show ?thesis by simp
  qed
  fix m assume m: "ps dvd m" "w \<le> m"
  show "w + ?pad \<le> m"
  proof (rule ccontr)
    assume "\<not> w + ?pad \<le> m"
    then have less: "m < w + ?pad" by simp
    from dv m(1) have "ps dvd (w + ?pad) - m" by (rule dvd_diff_nat)
    moreover have "0 < (w + ?pad) - m" using less by simp
    ultimately have "ps \<le> (w + ?pad) - m" by (rule dvd_imp_le)
    with m(2) lt show False by simp
  qed
qed


lemma pad_image_size:
  "width (pad_image im ps) = width im + (ps - width im mod ps) mod ps"
  "height (pad_image im ps) = height im + (ps - height im mod ps) mod ps"
  by (simp_all add: pad_image_def expand_def Let_def)

lemma padded_ge_patch:
  assumes "0 < ps" and "0 < w"
  shows "ps \<le> w + (ps - w mod ps) mod (ps :: nat)"
proof -
  have "ps dvd w + (ps - w mod ps) mod ps" using assms(1) by (rule pad_amount(1))
  moreover have "0 < w + (ps - w mod ps) mod ps" using assms(2) by simp
  ultimately show ?thesis by (rule dvd_imp_le)
qed

section \<open>The patches of a frame\<close>

lemma patch_rows_nonzero:
  "stride_x \<noteq> 0 \<Longrightarrow> patch_rows P ps stop_x stride_x ys =
     Inr (concat (map (\<lambda>y. map (\<lambda>x. crop P x y ps) (range_from 0 stop_x stride_x)) ys))"
  by (induction ys) (simp_all add: py_range_def)

lemma patch_rows_zero:
  "patch_rows P ps stop_x 0 ys = (if ys = [] then Inr [] else Inl ValueError)"
  by (cases ys) (simp_all add: py_range_def)

text \<open>The successful runs of \<^verbatim>\<open>extract_patches_rect\<close>, spelled out.\<close>

lemma extract_patches_rect_Inr_iff:
  "extract_patches_rect im ps ppr ppc = Inr (patches, sx, sy, pw, ph) \<longleftrightarrow>
     ps \<noteq> 0 \<and> ppr \<noteq> 1 \<and> ppc \<noteq> 1 \<and>
     pw = width (pad_image im ps) \<and> ph = height (pad_image im ps) \<and>
     sx = (int pw - int ps) div (ppr - 1) \<and> sy = (int ph - int ps) div (ppc - 1) \<and>
     sx \<noteq> 0 \<and> sy \<noteq> 0 \<and>
     patches = concat (map (\<lambda>y. map (\<lambda>x. crop (pad_image im ps) x y ps)
                                  (range_from 0 (int pw - int ps + 1) sx))
                           (range_from 0 (int ph - int ps + 1) sy)) \<and>
     patches \<noteq> []"
proof (cases "ps = 0 \<or> ppr = 1 \<or> ppc = 1 \<or>
    (int (height (pad_image im ps)) - int ps) div (ppc - 1) = 0")
  case True
  then show ?thesis
    by (auto simp: extract_patches_rect_def Let_def py_range_def)
next
  case False
  note basic = this
  show ?thesis
  proof (cases "(int (width (pad_image im ps)) - int ps) div (ppr - 1) = 0")
    case True
    then show ?thesis using basic
      by (auto simp: extract_patches_rect_def Let_def py_range_def patch_rows_zero stack_def)
  next
    case False
    then show ?thesis using basic
      by (auto simp: extract_patches_rect_def Let_def py_range_def patch_rows_nonzero stack_def)
  qed
qed



lemma extract_ranges_nonempty:
  assumes "extract_patches_rect im ps ppr ppc = Inr (patches, sx, sy, pw, ph)"
  shows "range_from 0 (int pw - int ps + 1) sx \<noteq> []"
    and "range_from 0 (int ph - int ps + 1) sy \<noteq> []"
proof -
  from assms have
    "ps \<noteq> 0 \<and> ppr \<noteq> 1 \<and> ppc \<noteq> 1 \<and>
     pw = width (pad_image im ps) \<and> ph = height (pad_image im ps) \<and>
     sx = (int pw - int ps) div (ppr - 1) \<and> sy = (int ph - int ps) div (ppc - 1) \<and>
     sx \<noteq> 0 \<and> sy \<noteq> 0 \<and>
     patches = concat (map (\<lambda>y. map (\<lambda>x. crop (pad_image im ps) x y ps)
                                  (range_from 0 (int pw - int ps + 1) sx))
                           (range_from 0 (int ph - int ps + 1) sy)) \<and>
     patches \<noteq> []"
    by (rule extract_patches_rect_Inr_iff[THEN iffD1])
  then have p: "patches = concat (map (\<lambda>y. map (\<lambda>x. crop (pad_image im ps) x y ps)
                                  (range_from 0 (int pw - int ps + 1) sx))
                           (range_from 0 (int ph - int ps + 1) sy))" "patches \<noteq> []"
    by blast+
  show "range_from 0 (int pw - int ps + 1) sx \<noteq> []"
  proof
    assume "range_from 0 (int pw - int ps + 1) sx = []"
    with p show False by simp
  qed
  show "range_from 0 (int ph - int ps + 1) sy \<noteq> []"
  proof
    assume "range_from 0 (int ph - int ps + 1) sy = []"
    with p show False by simp
  qed
qed

text \<open>One dimension of the partition: what a non-empty range says about the stride.\<close>

lemma stride_of_nonempty_range:
  fixes ps pw :: nat and n s :: int
  assumes "ps \<le> pw" and "s = (int pw - int ps) div (n - 1)"
    and "range_from 0 (int pw - int ps + 1) s \<noteq> []"
  shows "1 \<le> s \<and> 2 \<le> n \<and> n - 1 \<le> int pw - int ps"
proof -
  have nonneg: "0 \<le> int pw - int ps" using assms(1) by simp
  from assms(3) have "(0 < s \<and> 0 < int pw - int ps + 1) \<or> (s < 0 \<and> int pw - int ps + 1 < 0)"
    by (simp add: range_from_empty_iff)
  with nonneg have "0 < s" by auto
  then have "0 < (int pw - int ps) div (n - 1)" using assms(2) by simp
  then have "n - 1 \<le> int pw - int ps \<and> 0 < n - 1"
    using nonneg by (simp add: nonneg1_imp_zdiv_pos_iff)
  with \<open>0 < s\<close> show ?thesis by simp
qed

lemma range_of_positive_stride:
  fixes ps pw :: nat and n :: int
  assumes "2 \<le> n" and "1 \<le> (int pw - int ps) div (n - 1)"
  shows "range_from 0 (int pw - int ps + 1) ((int pw - int ps) div (n - 1)) \<noteq> []"
    and "n - 1 \<le> int pw - int ps"
proof -
  have "0 < n - 1" using assms(1) by simp
  moreover have "0 < (int pw - int ps) div (n - 1)" using assms(2) by simp
  ultimately show le: "n - 1 \<le> int pw - int ps"
    by (simp add: pos_imp_zdiv_pos_iff)
  with \<open>0 < n - 1\<close> have "0 < int pw - int ps + 1" by simp
  with assms(2) show "range_from 0 (int pw - int ps + 1) ((int pw - int ps) div (n - 1)) \<noteq> []"
    by (simp add: range_from_empty_iff)
qed

lemma extract_positive_frame:
  assumes "extract_patches_rect im ps ppr ppc = Inr (patches, sx, sy, pw, ph)"
    and "0 < width im" and "0 < height im"
  shows "1 \<le> sx \<and> 2 \<le> ppr \<and> ppr - 1 \<le> int pw - int ps"
    and "1 \<le> sy \<and> 2 \<le> ppc \<and> ppc - 1 \<le> int ph - int ps"
proof -
  from assms(1) have
    "ps \<noteq> 0 \<and> ppr \<noteq> 1 \<and> ppc \<noteq> 1 \<and>
     pw = width (pad_image im ps) \<and> ph = height (pad_image im ps) \<and>
     sx = (int pw - int ps) div (ppr - 1) \<and> sy = (int ph - int ps) div (ppc - 1) \<and>
     sx \<noteq> 0 \<and> sy \<noteq> 0 \<and>
     patches = concat (map (\<lambda>y. map (\<lambda>x. crop (pad_image im ps) x y ps)
                                  (range_from 0 (int pw - int ps + 1) sx))
                           (range_from 0 (int ph - int ps + 1) sy)) \<and>
     patches \<noteq> []"
    by (rule extract_patches_rect_Inr_iff[THEN iffD1])
  then have f: "ps \<noteq> 0" "pw = width (pad_image im ps)" "ph = height (pad_image im ps)"
    "sx = (int pw - int ps) div (ppr - 1)" "sy = (int ph - int ps) div (ppc - 1)"
    by blast+
  have "ps \<le> pw" using f(1,2) assms(2) by (simp add: pad_image_size padded_ge_patch)
  from stride_of_nonempty_range[OF this f(4) extract_ranges_nonempty(1)[OF assms(1)]]
  show "1 \<le> sx \<and> 2 \<le> ppr \<and> ppr - 1 \<le> int pw - int ps" .
  have "ps \<le> ph" using f(1,3) assms(3) by (simp add: pad_image_size padded_ge_patch)
  from stride_of_nonempty_range[OF this f(5) extract_ranges_nonempty(2)[OF assms(1)]]
  show "1 \<le> sy \<and> 2 \<le> ppc \<and> ppc - 1 \<le> int ph - int ps" .
qed

lemma extract_succeeds:
  assumes "1 \<le> ps" and "2 \<le> ppr" and "2 \<le> ppc"
    and "1 \<le> (int (width (pad_image im ps)) - int ps) div (ppr - 1)"
    and "1 \<le> (int (height (pad_image im ps)) - int ps) div (ppc - 1)"
  shows "\<exists>patches. extract_patches_rect im ps ppr ppc =
           Inr (patches, (int (width (pad_image im ps)) - int ps) div (ppr - 1),
                (int (height (pad_image im ps)) - int ps) div (ppc - 1),
                width (pad_image im ps), height (pad_image im ps))"
proof -
  from range_of_positive_stride(1)[OF assms(2,4)] obtain x xs where
    xs: "range_from 0 (int (width (pad_image im ps)) - int ps + 1)
           ((int (width (pad_image im ps)) - int ps) div (ppr - 1)) = x # xs"
    by (cases "range_from 0 (int (width (pad_image im ps)) - int ps + 1)
           ((int (width (pad_image im ps)) - int ps) div (ppr - 1))") auto
  from range_of_positive_stride(1)[OF assms(3,5)] obtain y ys where
    ys: "range_from 0 (int (height (pad_image im ps)) - int ps + 1)
           ((int (height (pad_image im ps)) - int ps) div (ppc - 1)) = y # ys"
    by (cases "range_from 0 (int (height (pad_image im ps)) - int ps + 1)
           ((int (height (pad_image im ps)) - int ps) div (ppc - 1))") auto
  show ?thesis
    using assms xs ys by (simp add: extract_patches_rect_Inr_iff)
qed

section \<open>Claims about the partition\<close>

lemma crop_size: "width (crop P x y ps) = ps" "height (crop P x y ps) = ps"
  by (simp_all add: crop_def)

lemma pad_image_expand:
  "\<exists>l t r b. pad_image im ps = expand im (l, t, r, b) \<and>
     l + r = width (pad_image im ps) - width im \<and> l \<le> r \<and> r \<le> l + 1 \<and>
     t + b = height (pad_image im ps) - height im \<and> t \<le> b \<and> b \<le> t + 1"
proof -
  let ?px = "(ps - width im mod ps) mod ps" and ?py = "(ps - height im mod ps) mod ps"
  have "pad_image im ps = expand im (?px div 2, ?py div 2, ?px - ?px div 2, ?py - ?py div 2)"
    by (simp add: pad_image_def Let_def)
  moreover have "?px div 2 + (?px - ?px div 2) = width (pad_image im ps) - width im"
    by (simp add: pad_image_size)
  moreover have "?py div 2 + (?py - ?py div 2) = height (pad_image im ps) - height im"
    by (simp add: pad_image_size)
  moreover have "?px div 2 \<le> ?px - ?px div 2" "?px - ?px div 2 \<le> ?px div 2 + 1"
    "?py div 2 \<le> ?py - ?py div 2" "?py - ?py div 2 \<le> ?py div 2 + 1"
    by linarith+
  ultimately show ?thesis by blast
qed

text \<open>
  C4. Every patch returned by \<^verbatim>\<open>extract_patches_rect\<close> is \<open>patch_size\<close> by \<open>patch_size\<close>
  and is cropped from the padded image (inside it when the strides are positive); each
  padded dimension is the least multiple of \<open>patch_size\<close> not below the original one, and
  the padding is split so that the right and bottom borders exceed the left and top ones
  by at most one.
\<close>

theorem patches_cropped_from_padded_image:
  assumes "extract_patches_rect im ps ppr ppc = Inr (patches, sx, sy, pw, ph)"
  shows "(\<forall>q\<in>set patches. width q = ps \<and> height q = ps \<and>
            (\<exists>x y. q = crop (pad_image im ps) x y ps \<and>
               (1 \<le> sx \<longrightarrow> 0 \<le> x \<and> x + int ps \<le> int pw) \<and>
               (1 \<le> sy \<longrightarrow> 0 \<le> y \<and> y + int ps \<le> int ph))) \<and>
         pw = width (pad_image im ps) \<and> ph = height (pad_image im ps) \<and>
         ps dvd pw \<and> width im \<le> pw \<and> (\<forall>m. ps dvd m \<and> width im \<le> m \<longrightarrow> pw \<le> m) \<and>
         ps dvd ph \<and> height im \<le> ph \<and> (\<forall>m. ps dvd m \<and> height im \<le> m \<longrightarrow> ph \<le> m) \<and>
         (\<exists>l t r b. pad_image im ps = expand im (l, t, r, b) \<and>
            l + r = pw - width im \<and> l \<le> r \<and> r \<le> l + 1 \<and>
            t + b = ph - height im \<and> t \<le> b \<and> b \<le> t + 1)"
proof -
  from assms have
    "ps \<noteq> 0 \<and> ppr \<noteq> 1 \<and> ppc \<noteq> 1 \<and>
     pw = width (pad_image im ps) \<and> ph = height (pad_image im ps) \<and>
     sx = (int pw - int ps) div (ppr - 1) \<and> sy = (int ph - int ps) div (ppc - 1) \<and>
     sx \<noteq> 0 \<and> sy \<noteq> 0 \<and>
     patches = concat (map (\<lambda>y. map (\<lambda>x. crop (pad_image im ps) x y ps)
                                  (range_from 0 (int pw - int ps + 1) sx))
                           (range_from 0 (int ph - int ps + 1) sy)) \<and>
     patches \<noteq> []"
    by (rule extract_patches_rect_Inr_iff[THEN iffD1])
  then have pos: "0 < ps" and pw: "pw = width (pad_image im ps)"
    and ph: "ph = height (pad_image im ps)"
    and p: "patches = concat (map (\<lambda>y. map (\<lambda>x. crop (pad_image im ps) x y ps)
                                  (range_from 0 (int pw - int ps + 1) sx))
                           (range_from 0 (int ph - int ps + 1) sy))"
    by simp_all
  have patches: "\<forall>q\<in>set patches. width q = ps \<and> height q = ps \<and>
            (\<exists>x y. q = crop (pad_image im ps) x y ps \<and>
               (1 \<le> sx \<longrightarrow> 0 \<le> x \<and> x + int ps \<le> int pw) \<and>
               (1 \<le> sy \<longrightarrow> 0 \<le> y \<and> y + int ps \<le> int ph))"
  proof
    fix q assume "q \<in> set patches"
    then obtain x y where xy: "x \<in> set (range_from 0 (int pw - int ps + 1) sx)"
      "y \<in> set (range_from 0 (int ph - int ps + 1) sy)" "q = crop (pad_image im ps) x y ps"
      unfolding p by auto
    have "1 \<le> sx \<longrightarrow> 0 \<le> x \<and> x + int ps \<le> int pw"
      using range_from_up_set[OF _ xy(1)] by auto
    moreover have "1 \<le> sy \<longrightarrow> 0 \<le> y \<and> y + int ps \<le> int ph"
      using range_from_up_set[OF _ xy(2)] by auto
    ultimately show "width q = ps \<and> height q = ps \<and>
            (\<exists>x y. q = crop (pad_image im ps) x y ps \<and>
               (1 \<le> sx \<longrightarrow> 0 \<le> x \<and> x + int ps \<le> int pw) \<and>
               (1 \<le> sy \<longrightarrow> 0 \<le> y \<and> y + int ps \<le> int ph))"
      using xy(3) by (auto simp: crop_size)
  qed
  have w: "ps dvd pw" "width im \<le> pw" "\<forall>m. ps dvd m \<and> width im \<le> m \<longrightarrow> pw \<le> m"
    unfolding pw pad_image_size
    using pad_amount(1)[OF pos] pad_amount(3)[OF pos] by auto
  have h: "ps dvd ph" "height im \<le> ph" "\<forall>m. ps dvd m \<and> height im \<le> m \<longrightarrow> ph \<le> m"
    unfolding ph pad_image_size
    using pad_amount(1)[OF pos] pad_amount(3)[OF pos] by auto
  from pad_image_expand[of im ps] have e: "\<exists>l t r b. pad_image im ps = expand im (l, t, r, b) \<and>
            l + r = pw - width im \<and> l \<le> r \<and> r \<le> l + 1 \<and>
            t + b = ph - height im \<and> t \<le> b \<and> b \<le> t + 1"
    unfolding pw ph .
  from patches pw ph w h e show ?thesis by blast
qed


text \<open>
  A frame of 3 by 3 pixels cut into patches of size 2, two per row and column: the padded
  image is 4 by 4 and both strides are 2.
\<close>

lemma extract_example:
  "\<exists>patches. extract_patches_rect \<lparr>width = 3, height = 3, pixel = \<lambda>x y. 0 :: nat\<rparr> 2 2 2
      = Inr (patches, 2, 2, 4, 4)"
  using extract_succeeds[of 2 2 2 "\<lparr>width = 3, height = 3, pixel = \<lambda>x y. 0 :: nat\<rparr>"]
  by (simp add: pad_image_size)

theorem patches_cropped_from_padded_image_witness:
  "\<exists>patches. extract_patches_rect \<lparr>width = 3, height = 3, pixel = \<lambda>x y. 0 :: nat\<rparr> 2 2 2
      = Inr (patches, 2, 2, 4, 4) \<and>
     (\<forall>q\<in>set patches. width q = 2 \<and> height q = 2) \<and>
     (2 :: nat) dvd 4 \<and>
     width \<lparr>width = 3, height = 3, pixel = \<lambda>x y. 0 :: nat\<rparr> \<le> 4 \<and>
     (\<forall>m. 2 dvd m \<and> width \<lparr>width = 3, height = 3, pixel = \<lambda>x y. 0 :: nat\<rparr> \<le> m
          \<longrightarrow> 4 \<le> m)"
proof -
  from extract_example obtain patches where
    e: "extract_patches_rect \<lparr>width = 3, height = 3, pixel = \<lambda>x y. 0 :: nat\<rparr> 2 2 2
      = Inr (patches, 2, 2, 4, 4)" ..
  from patches_cropped_from_padded_image[OF e] e show ?thesis
    by (intro exI[of _ patches]) blast
qed

text \<open>
  C9, as stated, fails in its parenthesis: padded sizes above the patch size do not give
  strides of at least one. A frame of 200 by 200 pixels with patches of size 128 is padded to
  256 by 256; asked for 130 patches per row the stride is \<open>128 div 129 = 0\<close> and the inner
  \<^verbatim>\<open>range\<close> raises.
\<close>

theorem extract_fails_with_large_padded_size:
  "128 < width (pad_image \<lparr>width = 200, height = 200, pixel = \<lambda>x y. 0 :: nat\<rparr> 128) \<and>
   128 < height (pad_image \<lparr>width = 200, height = 200, pixel = \<lambda>x y. 0 :: nat\<rparr> 128) \<and>
   extract_patches_rect \<lparr>width = 200, height = 200, pixel = \<lambda>x y. 0 :: nat\<rparr> 128 130 2
     = Inl ValueError"
  by (simp add: extract_patches_rect_def Let_def pad_image_size py_range_def patch_rows_zero
      range_from_empty_iff)

text \<open>
  C9, amended. For a frame of positive width and height, \<^verbatim>\<open>extract_patches_rect\<close> returns
  normally exactly when \<open>patch_size \<ge> 1\<close>, \<open>patches_per_row \<ge> 2\<close>, \<open>patches_per_column \<ge> 2\<close>
  and both computed strides are at least one; everywhere else it raises. With at least two
  patches per row (column) the stride is at least one exactly when the padded width (height)
  exceeds the patch size by at least \<open>patches_per_row - 1\<close> (\<open>patches_per_column - 1\<close>).
\<close>

theorem extract_patches_rect_total_iff:
  assumes "0 < width im" and "0 < height im"
  shows "((\<exists>r. extract_patches_rect im ps ppr ppc = Inr r) \<longleftrightarrow>
            1 \<le> ps \<and> 2 \<le> ppr \<and> 2 \<le> ppc \<and>
            1 \<le> (int (width (pad_image im ps)) - int ps) div (ppr - 1) \<and>
            1 \<le> (int (height (pad_image im ps)) - int ps) div (ppc - 1)) \<and>
         (2 \<le> ppr \<longrightarrow>
            (1 \<le> (int (width (pad_image im ps)) - int ps) div (ppr - 1) \<longleftrightarrow>
             ppr - 1 \<le> int (width (pad_image im ps)) - int ps)) \<and>
         (2 \<le> ppc \<longrightarrow>
            (1 \<le> (int (height (pad_image im ps)) - int ps) div (ppc - 1) \<longleftrightarrow>
             ppc - 1 \<le> int (height (pad_image im ps)) - int ps))"
proof -
  have stride: "1 \<le> a div (n - 1) \<longleftrightarrow> n - 1 \<le> a" if "2 \<le> n" for a n :: int
  proof -
    have "0 < a div (n - 1) \<longleftrightarrow> n - 1 \<le> a"
      using that by (intro pos_imp_zdiv_pos_iff) simp
    moreover have "1 \<le> a div (n - 1) \<longleftrightarrow> 0 < a div (n - 1)" by linarith
    ultimately show ?thesis by simp
  qed
  have "(\<exists>r. extract_patches_rect im ps ppr ppc = Inr r) \<longleftrightarrow>
            1 \<le> ps \<and> 2 \<le> ppr \<and> 2 \<le> ppc \<and>
            1 \<le> (int (width (pad_image im ps)) - int ps) div (ppr - 1) \<and>
            1 \<le> (int (height (pad_image im ps)) - int ps) div (ppc - 1)"
  proof
    assume "\<exists>r. extract_patches_rect im ps ppr ppc = Inr r"
    then obtain patches sx sy pw ph where
      e: "extract_patches_rect im ps ppr ppc = Inr (patches, sx, sy, pw, ph)"
      by (metis prod_cases5)
    from e have
      "ps \<noteq> 0 \<and> ppr \<noteq> 1 \<and> ppc \<noteq> 1 \<and>
       pw = width (pad_image im ps) \<and> ph = height (pad_image im ps) \<and>
       sx = (int pw - int ps) div (ppr - 1) \<and> sy = (int ph - int ps) div (ppc - 1) \<and>
       sx \<noteq> 0 \<and> sy \<noteq> 0 \<and>
       patches = concat (map (\<lambda>y. map (\<lambda>x. crop (pad_image im ps) x y ps)
                                    (range_from 0 (int pw - int ps + 1) sx))
                             (range_from 0 (int ph - int ps + 1) sy)) \<and>
       patches \<noteq> []"
      by (rule extract_patches_rect_Inr_iff[THEN iffD1])
    then have f: "ps \<noteq> 0" "pw = width (pad_image im ps)" "ph = height (pad_image im ps)"
      "sx = (int pw - int ps) div (ppr - 1)" "sy = (int ph - int ps) div (ppc - 1)"
      by simp_all
    from extract_positive_frame[OF e assms] f
    show "1 \<le> ps \<and> 2 \<le> ppr \<and> 2 \<le> ppc \<and>
            1 \<le> (int (width (pad_image im ps)) - int ps) div (ppr - 1) \<and>
            1 \<le> (int (height (pad_image im ps)) - int ps) div (ppc - 1)"
      by auto
  next
    assume "1 \<le> ps \<and> 2 \<le> ppr \<and> 2 \<le> ppc \<and>
            1 \<le> (int (width (pad_image im ps)) - int ps) div (ppr - 1) \<and>
            1 \<le> (int (height (pad_image im ps)) - int ps) div (ppc - 1)"
    then show "\<exists>r. extract_patches_rect im ps ppr ppc = Inr r"
      using extract_succeeds[of ps ppr ppc im] by blast
  qed
  then show ?thesis using stride by blast
qed

theorem extract_patches_rect_total_iff_witness:
  "0 < width \<lparr>width = 3, height = 3, pixel = \<lambda>x y. 0 :: nat\<rparr> \<and>
   0 < height \<lparr>width = 3, height = 3, pixel = \<lambda>x y. 0 :: nat\<rparr> \<and>
   (1 :: nat) \<le> 2 \<and> (2 :: int) \<le> 2 \<and>
   1 \<le> (int (width (pad_image \<lparr>width = 3, height = 3, pixel = \<lambda>x y. 0 :: nat\<rparr> 2)) - int 2)
         div (2 - 1) \<and>
   1 \<le> (int (height (pad_image \<lparr>width = 3, height = 3, pixel = \<lambda>x y. 0 :: nat\<rparr> 2)) - int 2)
         div (2 - 1) \<and>
   (\<exists>r. extract_patches_rect \<lparr>width = 3, height = 3, pixel = \<lambda>x y. 0 :: nat\<rparr> 2 2 2 = Inr r)"
proof -
  have w: "0 < width \<lparr>width = 3, height = 3, pixel = \<lambda>x y. 0 :: nat\<rparr>"
    and h: "0 < height \<lparr>width = 3, height = 3, pixel = \<lambda>x y. 0 :: nat\<rparr>"
    by simp_all
  have s: "1 \<le> (int (width (pad_image \<lparr>width = 3, height = 3, pixel = \<lambda>x y. 0 :: nat\<rparr> 2)) - int 2)
         div (2 - 1)"
    "1 \<le> (int (height (pad_image \<lparr>width = 3, height = 3, pixel = \<lambda>x y. 0 :: nat\<rparr> 2)) - int 2)
         div (2 - 1)"
    by (simp_all add: pad_image_size)
  from extract_patches_rect_total_iff[OF w h, of 2 2 2] w h s show ?thesis by simp
qed

lemma int_div_less:
  fixes a b c :: int
  assumes "0 < b" and "a < c * b"
  shows "a div b < c"
proof (rule ccontr)
  assume "\<not> a div b < c"
  then have "c \<le> a div b" by simp
  then have "c * b \<le> a div b * b" using assms(1) by (simp add: mult_right_mono)
  moreover have "a div b * b + a mod b = a" by simp
  moreover have "0 \<le> a mod b" using assms(1) by simp
  ultimately show False using assms(2) by linarith
qed

text \<open>One dimension of the partition under the default parameters.\<close>

lemma default_stride_overlap:
  fixes w pw :: nat and s :: int
  assumes "pw = w + (128 - w mod 128) mod 128"
    and "s = (int pw - int 128) div (int w div 32 - 1)"
    and "range_from 0 (int pw - int 128 + 1) s \<noteq> []"
  shows "1 \<le> s \<and> s < 128"
proof (cases "w = 0")
  case True
  with assms(1,2) have "pw = 0" "s = 128" by simp_all
  with assms(3) show ?thesis by (simp add: range_from_empty_iff)
next
  case False
  then have "(128::nat) \<le> pw"
    unfolding assms(1) by (intro padded_ge_patch) simp_all
  from stride_of_nonempty_range[OF this assms(2,3)]
  have s: "1 \<le> s" and n: "2 \<le> int w div 32" "int w div 32 - 1 \<le> int pw - int 128"
    by simp_all
  have dv: "(128::nat) dvd pw" unfolding assms(1) by (rule pad_amount(1)) simp
  have lt: "pw < w + 128" unfolding assms(1) by simp
  define d where "d = int w div 32"
  define m where "m = int w mod 32"
  have e: "int w = 32 * d + m" unfolding d_def m_def by simp
  have m: "m < 32" unfolding m_def by simp
  have d: "2 \<le> d" using n(1) d_def by simp
  have "int pw < int w + 128" using lt by simp
  then have "int pw - 128 < 32 * d + m" using e by simp
  also have "\<dots> < 32 * d + 32" using m by simp
  also have "\<dots> \<le> 128 * (d - 1)" using d by simp
  finally have "int pw - 128 < 128 * (d - 1)" .
  then have "int pw - int 128 < 128 * (int w div 32 - 1)" unfolding d_def by simp
  with n(1) have "(int pw - int 128) div (int w div 32 - 1) < 128"
    by (intro int_div_less) simp_all
  with s assms(2) show ?thesis by simp
qed


text \<open>
  C5. Under the default parameters (\<open>patch_size = 128\<close>, \<open>downscale = 32\<close>) every frame
  that the pipeline partitions, with \<open>width // downscale\<close> patches per row and
  \<open>height // downscale\<close> per column, gets strides between 1 and 127: neighbouring
  patches overlap in both directions.
\<close>

theorem default_patches_overlap:
  assumes "extract_patches_rect im (patch_size default_args)
             (int (width im) div downscale default_args)
             (int (height im) div downscale default_args)
           = Inr (patches, stride_x, stride_y, padded_width, padded_height)"
  shows "1 \<le> stride_x \<and> stride_x < int (patch_size default_args) \<and>
         1 \<le> stride_y \<and> stride_y < int (patch_size default_args)"
proof -
  from assms have e: "extract_patches_rect im 128 (int (width im) div 32)
      (int (height im) div 32) = Inr (patches, stride_x, stride_y, padded_width, padded_height)"
    by (simp add: default_args_def)
  then have
    "(128::nat) \<noteq> 0 \<and> int (width im) div 32 \<noteq> 1 \<and> int (height im) div 32 \<noteq> 1 \<and>
     padded_width = width (pad_image im 128) \<and> padded_height = height (pad_image im 128) \<and>
     stride_x = (int padded_width - int 128) div (int (width im) div 32 - 1) \<and>
     stride_y = (int padded_height - int 128) div (int (height im) div 32 - 1) \<and>
     stride_x \<noteq> 0 \<and> stride_y \<noteq> 0 \<and>
     patches = concat (map (\<lambda>y. map (\<lambda>x. crop (pad_image im 128) x y 128)
                                  (range_from 0 (int padded_width - int 128 + 1) stride_x))
                           (range_from 0 (int padded_height - int 128 + 1) stride_y)) \<and>
     patches \<noteq> []"
    by (rule extract_patches_rect_Inr_iff[THEN iffD1])
  then have f: "padded_width = width im + (128 - width im mod 128) mod 128"
    "padded_height = height im + (128 - height im mod 128) mod 128"
    "stride_x = (int padded_width - int 128) div (int (width im) div 32 - 1)"
    "stride_y = (int padded_height - int 128) div (int (height im) div 32 - 1)"
    by (simp_all add: pad_image_size)
  from default_stride_overlap[OF f(1) f(3) extract_ranges_nonempty(1)[OF e]]
       default_stride_overlap[OF f(2) f(4) extract_ranges_nonempty(2)[OF e]]
  show ?thesis by (simp add: default_args_def)
qed

theorem default_patches_overlap_witness:
  "\<exists>patches. extract_patches_rect \<lparr>width = 129, height = 300, pixel = \<lambda>x y. 0 :: nat\<rparr>
       (patch_size default_args)
       (int (width \<lparr>width = 129, height = 300, pixel = \<lambda>x y. 0 :: nat\<rparr>)
          div downscale default_args)
       (int (height \<lparr>width = 129, height = 300, pixel = \<lambda>x y. 0 :: nat\<rparr>)
          div downscale default_args)
     = Inr (patches, 42, 32, 256, 384) \<and>
     (1 :: int) \<le> 42 \<and> 42 < int (patch_size default_args) \<and>
     (1 :: int) \<le> 32 \<and> 32 < int (patch_size default_args)"
proof -
  from extract_succeeds[of 128 4 9 "\<lparr>width = 129, height = 300, pixel = \<lambda>x y. 0 :: nat\<rparr>"]
  obtain patches where
    "extract_patches_rect \<lparr>width = 129, height = 300, pixel = \<lambda>x y. 0 :: nat\<rparr> 128 4 9
       = Inr (patches, 42, 32, 256, 384)"
    by (auto simp: pad_image_size)
  then have e: "extract_patches_rect \<lparr>width = 129, height = 300, pixel = \<lambda>x y. 0 :: nat\<rparr>
       (patch_size default_args)
       (int (width \<lparr>width = 129, height = 300, pixel = \<lambda>x y. 0 :: nat\<rparr>)
          div downscale default_args)
       (int (height \<lparr>width = 129, height = 300, pixel = \<lambda>x y. 0 :: nat\<rparr>)
          div downscale default_args)
     = Inr (patches, 42, 32, 256, 384)"
    by (simp add: default_args_def)
  from default_patches_overlap[OF e] e show ?thesis by blast
qed


section \<open>The number of patches and the grid\<close>

lemma length_concat_rows:
  "length (concat (map (\<lambda>y. map (f y) xs) ys)) = length ys * length xs"
  by (induction ys) simp_all

lemma extract_count:
  assumes "extract_patches_rect im ps ppr ppc = Inr (patches, sx, sy, pw, ph)"
    and "1 \<le> sx" and "1 \<le> sy"
  shows "int (length patches)
           = ((int pw - int ps) div sx + 1) * ((int ph - int ps) div sy + 1)"
    and "0 \<le> (int pw - int ps) div sx" and "0 \<le> (int ph - int ps) div sy"
proof -
  from assms(1) have
    "ps \<noteq> 0 \<and> ppr \<noteq> 1 \<and> ppc \<noteq> 1 \<and>
     pw = width (pad_image im ps) \<and> ph = height (pad_image im ps) \<and>
     sx = (int pw - int ps) div (ppr - 1) \<and> sy = (int ph - int ps) div (ppc - 1) \<and>
     sx \<noteq> 0 \<and> sy \<noteq> 0 \<and>
     patches = concat (map (\<lambda>y. map (\<lambda>x. crop (pad_image im ps) x y ps)
                                  (range_from 0 (int pw - int ps + 1) sx))
                           (range_from 0 (int ph - int ps + 1) sy)) \<and>
     patches \<noteq> []"
    by (rule extract_patches_rect_Inr_iff[THEN iffD1])
  then have p: "patches = concat (map (\<lambda>y. map (\<lambda>x. crop (pad_image im ps) x y ps)
                                  (range_from 0 (int pw - int ps + 1) sx))
                           (range_from 0 (int ph - int ps + 1) sy))"
    by simp
  have sx: "0 < sx" and sy: "0 < sy" using assms(2,3) by simp_all
  from extract_ranges_nonempty(1)[OF assms(1)] sx have x0: "0 < int pw - int ps + 1"
    by (simp add: range_from_empty_iff)
  from extract_ranges_nonempty(2)[OF assms(1)] sy have y0: "0 < int ph - int ps + 1"
    by (simp add: range_from_empty_iff)
  have lx: "int (length (range_from 0 (int pw - int ps + 1) sx)) = (int pw - int ps) div sx + 1"
    using range_from_up_length[OF sx x0] by simp
  have ly: "int (length (range_from 0 (int ph - int ps + 1) sy)) = (int ph - int ps) div sy + 1"
    using range_from_up_length[OF sy y0] by simp
  have "int (length patches) = int (length (range_from 0 (int ph - int ps + 1) sy))
      * int (length (range_from 0 (int pw - int ps + 1) sx))"
    unfolding p length_concat_rows by simp
  then show "int (length patches)
           = ((int pw - int ps) div sx + 1) * ((int ph - int ps) div sy + 1)"
    unfolding lx ly by (simp add: mult.commute)
  show "0 \<le> (int pw - int ps) div sx" using x0 sx by (simp add: pos_imp_zdiv_nonneg_iff)
  show "0 \<le> (int ph - int ps) div sy" using y0 sy by (simp add: pos_imp_zdiv_nonneg_iff)
qed

text \<open>
  A frame without pixels in one direction, asked for zero patches in that direction (as
  \<open>0 // downscale\<close> is), has no patches to stack.
\<close>

lemma extract_stride_x_pipeline:
  assumes "extract_patches_rect im ps (int (width im) div ds) ppc
             = Inr (patches, sx, sy, pw, ph)"
  shows "1 \<le> sx"
proof -
  from assms have
    "ps \<noteq> 0 \<and> int (width im) div ds \<noteq> 1 \<and> ppc \<noteq> 1 \<and>
     pw = width (pad_image im ps) \<and> ph = height (pad_image im ps) \<and>
     sx = (int pw - int ps) div (int (width im) div ds - 1) \<and>
     sy = (int ph - int ps) div (ppc - 1) \<and>
     sx \<noteq> 0 \<and> sy \<noteq> 0 \<and>
     patches = concat (map (\<lambda>y. map (\<lambda>x. crop (pad_image im ps) x y ps)
                                  (range_from 0 (int pw - int ps + 1) sx))
                           (range_from 0 (int ph - int ps + 1) sy)) \<and>
     patches \<noteq> []"
    by (rule extract_patches_rect_Inr_iff[THEN iffD1])
  then have f: "0 < ps" "pw = width (pad_image im ps)"
    "sx = (int pw - int ps) div (int (width im) div ds - 1)"
    by simp_all
  show ?thesis
  proof (cases "width im = 0")
    case True
    with f show ?thesis by (simp add: pad_image_size)
  next
    case False
    then have "ps \<le> pw" using f(1,2) by (simp add: pad_image_size padded_ge_patch)
    from stride_of_nonempty_range[OF this f(3) extract_ranges_nonempty(1)[OF assms]]
    show ?thesis by simp
  qed
qed

lemma extract_stride_y_pipeline:
  assumes "extract_patches_rect im ps ppr (int (height im) div ds)
             = Inr (patches, sx, sy, pw, ph)"
  shows "1 \<le> sy"
proof -
  from assms have
    "ps \<noteq> 0 \<and> ppr \<noteq> 1 \<and> int (height im) div ds \<noteq> 1 \<and>
     pw = width (pad_image im ps) \<and> ph = height (pad_image im ps) \<and>
     sx = (int pw - int ps) div (ppr - 1) \<and>
     sy = (int ph - int ps) div (int (height im) div ds - 1) \<and>
     sx \<noteq> 0 \<and> sy \<noteq> 0 \<and>
     patches = concat (map (\<lambda>y. map (\<lambda>x. crop (pad_image im ps) x y ps)
                                  (range_from 0 (int pw - int ps + 1) sx))
                           (range_from 0 (int ph - int ps + 1) sy)) \<and>
     patches \<noteq> []"
    by (rule extract_patches_rect_Inr_iff[THEN iffD1])
  then have f: "0 < ps" "ph = height (pad_image im ps)"
    "sy = (int ph - int ps) div (int (height im) div ds - 1)"
    by simp_all
  show ?thesis
  proof (cases "height im = 0")
    case True
    with f show ?thesis by (simp add: pad_image_size)
  next
    case False
    then have "ps \<le> ph" using f(1,2) by (simp add: pad_image_size padded_ge_patch)
    from stride_of_nonempty_range[OF this f(3) extract_ranges_nonempty(2)[OF assms]]
    show ?thesis by simp
  qed
qed

lemma embed_patches_length:
  "embed_patches model image_transforms patches = Inr F \<Longrightarrow> length F = length patches"
  by (auto simp: embed_patches_eq normalize_rows_def split: if_splits)

text \<open>What a normal return of \<^verbatim>\<open>get_frame_embeddings\<close> went through.\<close>

lemma get_frame_embeddings_InrD:
  assumes "get_frame_embeddings args model image_transforms im = Inr (F, new_w, new_h)"
  shows "\<exists>patches sx sy pw ph.
     extract_patches_rect im (patch_size args) (int (width im) div downscale args)
        (int (height im) div downscale args) = Inr (patches, sx, sy, pw, ph) \<and>
     embed_patches model image_transforms patches = Inr F \<and>
     new_w = (int pw - int (patch_size args)) div sx + 1 \<and>
     new_h = (int ph - int (patch_size args)) div sy + 1"
  using assms
  by (auto simp: get_frame_embeddings_def floordiv_def split: sum.splits prod.splits if_splits)

lemma get_frame_embeddings_grid:
  assumes "get_frame_embeddings args model image_transforms im = Inr (F, new_w, new_h)"
  shows "int (length F) = new_w * new_h \<and> 1 \<le> new_w \<and> 1 \<le> new_h"
proof -
  from get_frame_embeddings_InrD[OF assms] obtain patches sx sy pw ph where
    e: "extract_patches_rect im (patch_size args) (int (width im) div downscale args)
        (int (height im) div downscale args) = Inr (patches, sx, sy, pw, ph)" and
    F: "embed_patches model image_transforms patches = Inr F" and
    n: "new_w = (int pw - int (patch_size args)) div sx + 1"
       "new_h = (int ph - int (patch_size args)) div sy + 1"
    by blast
  have sx: "1 \<le> sx" using e by (rule extract_stride_x_pipeline)
  have sy: "1 \<le> sy" using e by (rule extract_stride_y_pipeline)
  from extract_count[OF e sx sy] embed_patches_length[OF F] n show ?thesis by simp
qed

lemma reshape_fits:
  assumes "1 \<le> h" and "1 \<le> w" and "h * w = int (length xs)"
  shows "reshape xs h w = Inr (rows_of (nat h) (nat w) xs)"
  using assms by (simp add: reshape_def)


lemma length_concat_singletons:
  "\<forall>r\<in>set xs. length r = 1 \<Longrightarrow> length (concat xs) = length xs"
  by (induction xs) simp_all

lemma similarity_before_MAP_length:
  "length (similarity_before_MAP embedding source_feature supervision_feature lambda negatives)
     = length embedding"
  by (cases supervision_feature)
     (simp_all add: similarity_before_MAP_def Let_def matmul_T_def smul_def nan_smul_def
        nan_vsmul_def tadd_def tsub_def tdiv_def mean_lastdim_def mean_lastdim_keepdim_def
        unsqueeze_def finite_tensor_def)

lemma similarity_before_MAP_singleton:
  assumes "i < length embedding"
  shows "length (similarity_before_MAP embedding source_feature supervision_feature lambda
            negatives ! i) = 1"
  using assms
  by (cases supervision_feature)
     (simp_all add: similarity_before_MAP_def Let_def matmul_T_def smul_def nan_smul_def
        nan_vsmul_def tadd_def tsub_def tdiv_def mean_lastdim_def mean_lastdim_keepdim_def
        unsqueeze_def finite_tensor_def)

lemma similarity_before_MAP_rows:
  "\<forall>r\<in>set (similarity_before_MAP embedding source_feature supervision_feature lambda
      negatives). length r = 1"
proof
  let ?S = "similarity_before_MAP embedding source_feature supervision_feature lambda negatives"
  fix r assume "r \<in> set ?S"
  then obtain i where i: "i < length ?S" "r = ?S ! i" by (auto simp: in_set_conv_nth)
  then have "i < length embedding" by (simp add: similarity_before_MAP_length)
  from similarity_before_MAP_singleton[OF this] i(2) show "length r = 1" by simp
qed

lemma similarity_before_MAP_entries:
  "length (concat (similarity_before_MAP embedding source_feature supervision_feature lambda
      negatives)) = length embedding"
  using length_concat_singletons[OF similarity_before_MAP_rows]
  by (simp add: similarity_before_MAP_length)

lemma MAP_entries:
  assumes "MAP ops similarity = Inr mapped"
  shows "length (concat mapped) = length (concat similarity)"
proof -
  from assms obtain f where "mapped = map (map f) similarity"
    by (auto simp: MAP_def Let_def split: sum.splits)
  then show ?thesis by (simp add: length_concat o_def)
qed



text \<open>A tensor with \<open>new_h * new_w\<close> rows passes the reshape of \<^verbatim>\<open>process_frames\<close>.\<close>

lemma process_frame_reshape:
  assumes "int (length embedding) = new_w * new_h" and "1 \<le> new_w" and "1 \<le> new_h"
    and "score_frame embedding source_feature supervision_feature lambda rng p
           = Some (Inr (similarity, p'))"
    and "MAP ops similarity = Inr mapped"
  shows "reshape (concat mapped) new_h new_w = Inr (rows_of (nat new_h) (nat new_w) (concat mapped))"
proof -
  from assms(4) obtain negatives where
    "similarity = similarity_before_MAP embedding source_feature supervision_feature lambda
       negatives"
    by (auto simp: score_frame_def split: option.splits sum.splits prod.splits)
  then have "length (concat similarity) = length embedding"
    by (simp add: similarity_before_MAP_entries)
  with MAP_entries[OF assms(5)] assms(1) have "new_h * new_w = int (length (concat mapped))"
    by (simp add: mult.commute)
  with assms(2,3) show ?thesis by (intro reshape_fits) simp_all
qed



section \<open>Saving the features of every frame\<close>










lemma concat_replicate_single: "concat (replicate n [x]) = replicate n x"
  by (induction n) simp_all

















section \<open>Unit rows and cosine similarity\<close>










section \<open>The transform on a constant tensor\<close>

text \<open>
  The pieces of \<^verbatim>\<open>MAP\<close> on the tensor \<^verbatim>\<open>torch.zeros(20, 1)\<close>: the deviation of twenty zeros is
  exactly zero, whatever the rounding of the other deviations, the top 5% is one value, zero,
  and the transform of an entry is zero divided by zero.
\<close>

lemma tensor_std_zeros: "tensor_std ops (concat (replicate 20 [Some 0])) = Some 0"
proof -
  have "concat (replicate 20 [Some (0 :: real)]) = replicate 20 (Some 0)"
    by (rule concat_replicate_single)
  then show ?thesis by (simp add: tensor_std_def)
qed

lemma column0_zeros: "column0 (replicate 20 [Some (0 :: real)]) = Inr (replicate 20 (Some 0))"
  by (simp add: column0_def)

lemma topk_zeros: "topk (replicate 20 (Some 0)) (length (replicate 20 [Some (0 :: real)]) div 20)
    = Inr [Some 0]"
proof -
  have "sort (replicate 20 (0 :: real)) = replicate 20 0"
    by (rule sorted_sort_id) simp
  then show ?thesis by (simp add: topk_def)
qed

lemma tensor_min_zero: "tensor_min [Some 0] = Inr (Some 0)"
  by (simp add: tensor_min_def)

lemma squash_zero_by_zero: "squash ops (Some 0) (Some 0) (Some 0) = None"
  by (simp add: squash_def)

text \<open>
  C3. The docstring of \<^verbatim>\<open>MAP\<close> promises values in the range from 0 to 100, and the claim
  entries strictly between 0 and 100 for every tensor of at least twenty rows. The code
  divides by the standard deviation without a guard: on \<^verbatim>\<open>torch.zeros(20, 1)\<close> the deviation
  is zero, \<^verbatim>\<open>-(similarity - top25) / (std / 12)\<close> is zero divided by zero, and \<^verbatim>\<open>MAP\<close> returns
  NaN in each of the twenty entries, whatever the rounding of the floating-point operations.
\<close>

theorem MAP_constant_is_nan:
  "MAP ops (replicate 20 [Some 0]) = Inr (replicate 20 [None])"
  by (simp only: MAP_def Let_def tensor_std_zeros column0_zeros topk_zeros tensor_min_zero
        sum.case map_replicate list.map squash_zero_by_zero)


end
